theory Spec2Isabelle
  imports Complex_Main "HOL-Library.Sublist"
begin

section \<open>Python values and exceptions\<close>

text \<open>
  The agent runtime passes JSON-like Python values around: tool arguments, tool results,
  policy payloads, LLM suggestions. They are modelled by one datatype. A dict is an
  association list with string keys (\<open>map_of\<close> is \<open>dict.get\<close>); \<open>PObj\<close> is an object
  that only carries attributes (the transport's result objects), so \<open>hasattr\<close> is a
  key test and such an object has no \<open>get\<close>, \<open>lower\<close> or \<open>startswith\<close> method.
\<close>

datatype pyval =
    PNone
  | PBool bool
  | PInt int
  | PFloat real
  | PStr string
  | PList "pyval list"
  | PDict "(string \<times> pyval) list"
  | PObj "(string \<times> pyval) list"

text \<open>Truthiness, as \<open>if x:\<close> and \<open>not x\<close> test it.\<close>

fun truthy :: "pyval \<Rightarrow> bool" where
  "truthy PNone = False"
| "truthy (PBool b) = b"
| "truthy (PInt i) = (i \<noteq> 0)"
| "truthy (PFloat r) = (r \<noteq> 0)"
| "truthy (PStr s) = (s \<noteq> [])"
| "truthy (PList xs) = (xs \<noteq> [])"
| "truthy (PDict kvs) = (kvs \<noteq> [])"
| "truthy (PObj attrs) = True"

text \<open>
  Exceptions are values: a class and the message \<open>str(e)\<close>. \<open>BaseExceptionOnly\<close> stands
  for the classes that \<open>except Exception\<close> does not catch (task cancellation, keyboard
  interrupt); \<open>OtherException\<close> for every other subclass of \<open>Exception\<close>.
\<close>

datatype exn_class =
    PermissionError
  | TimeoutError
  | RuntimeError
  | ResourceReadError
  | ToolExecutionError
  | AttributeError
  | TypeError
  | KeyError
  | UnboundLocalError
  | OtherException
  | BaseExceptionOnly

datatype exn = Exn (exn_cls: exn_class) (exn_msg: string)

definition is_Exception :: "exn \<Rightarrow> bool" where
  "is_Exception e = (exn_cls e \<noteq> BaseExceptionOnly)"

text \<open>Sequencing of computations that may raise.\<close>

definition ebind :: "exn + 'a \<Rightarrow> ('a \<Rightarrow> exn + 'b) \<Rightarrow> exn + 'b" where
  "ebind m f = (case m of Inl e \<Rightarrow> Inl e | Inr x \<Rightarrow> f x)"

text \<open>\<open>d.get(k, default)\<close>: only a dict has the method.\<close>

fun py_get :: "pyval \<Rightarrow> string \<Rightarrow> pyval \<Rightarrow> exn + pyval" where
  "py_get (PDict kvs) k dflt = Inr (case map_of kvs k of None \<Rightarrow> dflt | Some v \<Rightarrow> v)"
| "py_get _ k dflt = Inl (Exn AttributeError ''get'')"

text \<open>\<open>s.lower()\<close> on the ASCII range; only a string has the method.\<close>

definition lower_char :: "char \<Rightarrow> char" where
  "lower_char c =
     (if 65 \<le> (of_char c :: nat) \<and> (of_char c :: nat) \<le> 90
      then char_of ((of_char c :: nat) + 32) else c)"

definition lower :: "string \<Rightarrow> string" where
  "lower s = map lower_char s"

fun py_lower :: "pyval \<Rightarrow> exn + string" where
  "py_lower (PStr s) = Inr (lower s)"
| "py_lower _ = Inl (Exn AttributeError ''lower'')"

text \<open>\<open>s.startswith(p)\<close>; only a string has the method.\<close>

fun py_startswith :: "pyval \<Rightarrow> string \<Rightarrow> exn + bool" where
  "py_startswith (PStr s) p = Inr (prefix p s)"
| "py_startswith _ p = Inl (Exn AttributeError ''startswith'')"

text \<open>
  \<open>needle in x\<close> for a string needle: substring test on a string, membership on a list,
  key test on a dict, \<open>TypeError\<close> on what is not iterable.
\<close>

fun py_str_in :: "string \<Rightarrow> pyval \<Rightarrow> exn + bool" where
  "py_str_in n (PStr s) = Inr (sublist n s)"
| "py_str_in n (PList xs) = Inr (PStr n \<in> set xs)"
| "py_str_in n (PDict kvs) = Inr (n \<in> set (map fst kvs))"
| "py_str_in n _ = Inl (Exn TypeError ''argument is not iterable'')"

text \<open>\<open>x in {"a", "b", ...}\<close>: the set hashes \<open>x\<close>, which a list or a dict does not allow.\<close>

fun py_in_strset :: "pyval \<Rightarrow> string list \<Rightarrow> exn + bool" where
  "py_in_strset (PList xs) names = Inl (Exn TypeError ''unhashable type'')"
| "py_in_strset (PDict kvs) names = Inl (Exn TypeError ''unhashable type'')"
| "py_in_strset (PStr s) names = Inr (s \<in> set names)"
| "py_in_strset _ names = Inr False"

section \<open>Policy engine (policy.py)\<close>

datatype PolicyDecision = ALLOW | DENY | DRY_RUN

definition blocked_commands :: "string list" where
  "blocked_commands =
     [''rm -rf /'', ''shutdown'', ''reboot'', ''mkfs'', ''dd if=/dev/zero'',
      ''chmod 777 /'', ''chown -R'']"

definition dangerous_patterns :: "string list" where
  "dangerous_patterns = [''rm -rf'', ''/dev/sda'', ''/dev/null'', ''>/dev/sda'']"

definition mutating_tools :: "string list" where
  "mutating_tools =
     [''run_command'', ''interactive_command'', ''write_file'', ''replace_in_file'',
      ''kill_process'', ''git_commit'']"

text \<open>
  The two \<open>for ... in ...: if x in command.lower(): return DENY\<close> loops. The string is
  lowered inside the loop, so a command that is not a string raises at the first round.
\<close>

fun any_in_lower :: "string list \<Rightarrow> pyval \<Rightarrow> exn + bool" where
  "any_in_lower [] command = Inr False"
| "any_in_lower (b # bs) command =
     ebind (py_lower command) (\<lambda>l. if sublist b l then Inr True else any_in_lower bs command)"

text \<open>The block for \<open>run_command\<close> and \<open>interactive_command\<close>; True means deny.\<close>

definition command_rule :: "(string \<times> pyval) list \<Rightarrow> pyval \<Rightarrow> exn + bool" where
  "command_rule payload tool_name =
     ebind (py_in_strset tool_name [''run_command'', ''interactive_command'']) (\<lambda>is_cmd.
       if is_cmd then
         ebind (py_get (PDict payload) ''arguments'' (PDict [])) (\<lambda>args.
         ebind (py_get args ''command'' (PStr [])) (\<lambda>command.
         ebind (any_in_lower blocked_commands command) (\<lambda>blocked.
           if blocked then Inr True else any_in_lower dangerous_patterns command)))
       else Inr False)"

text \<open>The block for \<open>git_commit\<close>.\<close>

definition git_rule :: "(string \<times> pyval) list \<Rightarrow> pyval \<Rightarrow> exn + bool" where
  "git_rule payload tool_name =
     (if tool_name = PStr ''git_commit'' then
        ebind (py_get (PDict payload) ''arguments'' (PDict [])) (\<lambda>args.
        ebind (py_get args ''message'' (PStr [])) (\<lambda>message.
        ebind (py_str_in ''--force'' message) (\<lambda>force.
          if force then Inr True else py_str_in ''-f'' message)))
      else Inr False)"

text \<open>The block for \<open>write_file\<close>.\<close>

fun any_startswith :: "pyval \<Rightarrow> string list \<Rightarrow> exn + bool" where
  "any_startswith path [] = Inr False"
| "any_startswith path (p # ps) =
     ebind (py_startswith path p) (\<lambda>b. if b then Inr True else any_startswith path ps)"

definition write_rule :: "(string \<times> pyval) list \<Rightarrow> exn + bool" where
  "write_rule payload =
     (if map_of payload ''name'' = Some (PStr ''write_file'') then
        ebind (py_get (PDict payload) ''arguments'' (PDict [])) (\<lambda>args.
        ebind (py_get args ''path'' (PStr [])) (\<lambda>path.
        ebind (py_startswith path ''/'') (\<lambda>abs.
        ebind (if abs then py_startswith path ''/home'' else Inr True) (\<lambda>home.
          if abs \<and> \<not> home then Inr True
          else ebind (py_str_in ''..'' path) (\<lambda>up.
            if up then Inr True
            else any_startswith path [''/etc/'', ''/sys/'', ''/proc/'', ''/boot/''])))))
      else Inr False)"

text \<open>The block for \<open>kill_process\<close>.\<close>

definition kill_rule :: "(string \<times> pyval) list \<Rightarrow> exn + bool" where
  "kill_rule payload =
     (if map_of payload ''name'' = Some (PStr ''kill_process'') then
        ebind (py_get (PDict payload) ''arguments'' (PDict [])) (\<lambda>args.
        ebind (py_get args ''process_id'' (PStr [])) (\<lambda>process_id.
          Inr (\<not> truthy process_id \<or> process_id = PStr ''1'')))
      else Inr False)"

text \<open>
  The soft rule for \<open>read_file\<close> decides nothing, but it still reads
  \<open>payload.get("arguments", {}).get("path", "")\<close>, which raises when the arguments are
  not a dict.
\<close>

definition read_rule :: "(string \<times> pyval) list \<Rightarrow> exn + unit" where
  "read_rule payload =
     (if map_of payload ''name'' = Some (PStr ''read_file'') then
        ebind (py_get (PDict payload) ''arguments'' (PDict [])) (\<lambda>args.
        ebind (py_get args ''path'' (PStr [])) (\<lambda>path. Inr ()))
      else Inr ())"

text \<open>
  \<open>PolicyEngine.evaluate\<close>. The first argument is the engine's \<open>dry_run\<close> field; the
  payload is the dict the caller built.
\<close>

definition evaluate :: "bool \<Rightarrow> string \<Rightarrow> (string \<times> pyval) list \<Rightarrow> exn + PolicyDecision" where
  "evaluate dry_run action_type payload =
     (let tool_name = (case map_of payload ''name'' of None \<Rightarrow> PNone | Some v \<Rightarrow> v) in
      ebind (if action_type = ''tool''
             then ebind (command_rule payload tool_name) (\<lambda>d.
                    if d then Inr True else git_rule payload tool_name)
             else Inr False) (\<lambda>deny1.
      if deny1 then Inr DENY else
      ebind (if action_type = ''tool'' then write_rule payload else Inr False) (\<lambda>deny2.
      if deny2 then Inr DENY else
      ebind (if action_type = ''tool'' then kill_rule payload else Inr False) (\<lambda>deny3.
      if deny3 then Inr DENY else
      ebind (if dry_run \<and> action_type = ''tool''
             then py_in_strset tool_name mutating_tools else Inr False) (\<lambda>dry.
      if dry then Inr DRY_RUN else
      ebind (if action_type = ''tool'' then read_rule payload else Inr ()) (\<lambda>_.
      Inr ALLOW))))))"

section \<open>Configuration (config.py)\<close>

text \<open>
  The module assigns \<open>MAX_RETRIES\<close> and \<open>MAX_CONTEXT_ITEMS\<close> twice; the later
  assignment is the value every importer sees.
\<close>

definition ALLOWED_TOOLS :: "string \<Rightarrow> string list" where
  "ALLOWED_TOOLS server =
     (if server = ''terminal'' then
        [''run_command'', ''interactive_command'', ''read_file'', ''write_file'',
         ''list_directory'', ''search_files'', ''replace_in_file'', ''list_processes'',
         ''kill_process'', ''get_env'', ''system_info'', ''git_status'', ''git_diff'',
         ''git_commit'', ''tail_file'', ''check_port'', ''docker_ps'',
         ''analyze_code_quality'', ''detect_security_issues'', ''profile_code_performance'',
         ''analyze_project_structure'', ''detect_circular_dependencies'',
         ''generate_dependency_graph'', ''trace_execution'', ''analyze_error_logs'',
         ''compare_outputs'', ''generate_unit_tests'', ''run_tests_with_coverage'',
         ''detect_test_gaps'', ''trace_error_origin'', ''find_breaking_change'',
         ''refactor_function_name'', ''inspect_running_process'', ''detect_memory_leaks'',
         ''undo_last_action'', ''run_command_sandboxed'', ''backup_before_operation'',
         ''clear_cache'', ''ai_code_review'', ''generate_docs'', ''semantic_code_search'',
         ''list_directory_contents'']
      else [])"

definition ALLOWED_RESOURCES :: "string \<Rightarrow> string list" where
  "ALLOWED_RESOURCES server =
     (if server = ''terminal'' then
        [''workspace://tree'', ''workspace://summary'', ''system://info'', ''system://env'',
         ''system://disk'', ''system://processes'', ''terminal://history'', ''git://status'',
         ''git://diff'', ''git://log'', ''logs://app'', ''logs://errors'', ''session://cwd'',
         ''session://tasks'', ''project://complexity'', ''project://dependencies'',
         ''project://test-coverage'', ''monitor://cpu'', ''monitor://memory'',
         ''monitor://file-changes'', ''monitor://disk'', ''metrics://tool-performance'',
         ''cache://stats'', ''monitor://cpu'']
      else [])"

definition ALLOWED_PROMPTS :: "string \<Rightarrow> string list" where
  "ALLOWED_PROMPTS server =
     (if server = ''terminal'' then
        [''terminal_system_prompt'', ''terminal_command_planning_prompt'',
         ''terminal_resource_usage_prompt'', ''terminal_execution_rules_prompt'',
         ''terminal_debugging_prompt'', ''terminal_long_running_prompt'',
         ''terminal_safety_prompt'', ''terminal_response_style_prompt'']
      else [])"

definition MAX_CONTEXT_ITEMS :: nat where "MAX_CONTEXT_ITEMS = 50"
definition ENABLE_TRACING :: bool where "ENABLE_TRACING = True"
definition ENABLE_CACHE :: bool where "ENABLE_CACHE = True"
definition MAX_RETRIES :: nat where "MAX_RETRIES = 3"
definition RESOURCE_TIMEOUT_SECONDS :: real where "RESOURCE_TIMEOUT_SECONDS = 10"
definition FAILURE_THRESHOLD :: int where "FAILURE_THRESHOLD = 3"
definition CIRCUIT_BREAKER_COOLDOWN :: real where "CIRCUIT_BREAKER_COOLDOWN = 10"

section \<open>MCP client (client.py)\<close>

text \<open>
  What lies outside the repository is an oracle. A request to the tool server is answered
  by \<open>transport\<close>, the LLM by \<open>run_llm\<close>, and each takes the number of events that
  happened before, so that an oracle can answer every call differently: any behaviour
  of the server and of the LLM is some pair of such functions. \<open>clock\<close> gives the n-th
  reading of \<open>time.time()\<close>. \<open>json_dumps\<close> is \<open>json.dumps(x, sort_keys=True)\<close>,
  \<open>json_loads\<close> is \<open>json.loads\<close> (\<open>None\<close> when it raises), \<open>py_str\<close> is \<open>str(x)\<close> and
  \<open>type_str\<close> is \<open>str(type(x))\<close>, all of the Python library.
\<close>

datatype request =
    ReadResource string
  | CallTool pyval pyval
  | GetPrompt pyval pyval

datatype event =
    Transport request
  | LLMCall pyval
  | Dispatch pyval pyval
  | PolicyEval string "(string \<times> pyval) list"
  | Printed string

record env =
  transport :: "nat \<Rightarrow> request \<Rightarrow> exn + pyval"
  run_llm :: "nat \<Rightarrow> pyval \<Rightarrow> exn + pyval"
  clock :: "nat \<Rightarrow> real"
  json_dumps :: "pyval \<Rightarrow> exn + string"
  py_str :: "pyval \<Rightarrow> string"
  type_str :: "pyval \<Rightarrow> string"
  json_loads :: "string \<Rightarrow> pyval option"

text \<open>
  The client's fields, and two ghost fields: \<open>clock_reads\<close>, and \<open>events\<close>, the log
  of what leaves the process (transport requests, LLM calls), of the calls the executor
  makes to the client, of the policy evaluations, and of the lines the agent prints
  whatever its debug mode (given by their text, without the leading symbols).
\<close>

record state =
  context_buffer :: "pyval list"
  trace_log :: "(string \<times> pyval \<times> real) list"
  cache :: "string \<rightharpoonup> pyval"
  failure_count :: "string \<rightharpoonup> int"
  circuit_open_until :: "string \<rightharpoonup> real"
  cancelled :: bool
  events :: "event list"
  clock_reads :: nat

definition time_time :: "env \<Rightarrow> state \<Rightarrow> real \<times> state" where
  "time_time env s = (clock env (clock_reads s), s\<lparr>clock_reads := Suc (clock_reads s)\<rparr>)"

definition send :: "env \<Rightarrow> request \<Rightarrow> state \<Rightarrow> (exn + pyval) \<times> state" where
  "send env rq s =
     (transport env (length (events s)) rq, s\<lparr>events := events s @ [Transport rq]\<rparr>)"

definition cancel :: "state \<Rightarrow> state" where
  "cancel s = s\<lparr>cancelled := True\<rparr>"

definition check_cancelled :: "state \<Rightarrow> exn + unit" where
  "check_cancelled s =
     (if cancelled s then Inl (Exn RuntimeError ''Client operation cancelled'') else Inr ())"

definition trace :: "env \<Rightarrow> string \<Rightarrow> pyval \<Rightarrow> state \<Rightarrow> state" where
  "trace env ev payload s =
     (if ENABLE_TRACING then
        (case time_time env s of (t, s') \<Rightarrow>
           s'\<lparr>trace_log := trace_log s' @ [(ev, payload, t)]\<rparr>)
      else s)"

definition is_tool_allowed :: "string \<Rightarrow> pyval \<Rightarrow> exn + bool" where
  "is_tool_allowed server tool = py_in_strset tool (ALLOWED_TOOLS server)"

definition is_resource_allowed :: "string \<Rightarrow> string \<Rightarrow> bool" where
  "is_resource_allowed server uri =
     (if uri \<in> set (ALLOWED_RESOURCES server) then True
      else if prefix ''file://'' uri then True
      else False)"

definition is_prompt_allowed :: "string \<Rightarrow> pyval \<Rightarrow> exn + bool" where
  "is_prompt_allowed server prompt = py_in_strset prompt (ALLOWED_PROMPTS server)"

definition add_to_context :: "env \<Rightarrow> pyval \<Rightarrow> state \<Rightarrow> state" where
  "add_to_context env item s =
     (let s1 = s\<lparr>context_buffer := context_buffer s @ [item]\<rparr>;
          s2 = trace env ''context_added'' (PDict [(''item_type'', PStr ''dict'')]) s1
      in if length (context_buffer s2) > MAX_CONTEXT_ITEMS
         then trace env ''context_evicted'' (PDict [(''item_type'', PStr ''dict'')])
                (s2\<lparr>context_buffer := tl (context_buffer s2)\<rparr>)
         else s2)"

definition get_context :: "state \<Rightarrow> pyval list" where
  "get_context s = context_buffer s"

text \<open>The key is one string, built by an f-string; a name that is a string prints as itself.\<close>

fun name_str :: "env \<Rightarrow> pyval \<Rightarrow> string" where
  "name_str env (PStr n) = n"
| "name_str env v = py_str env v"

definition cache_key :: "env \<Rightarrow> string \<Rightarrow> string \<Rightarrow> pyval \<Rightarrow> pyval \<Rightarrow> exn + string" where
  "cache_key env kind server name args =
     ebind (json_dumps env args) (\<lambda>j.
       Inr (kind @ '':'' @ server @ '':'' @ name_str env name @ '':'' @ j))"

text \<open>\<open>_get_cached\<close> answers \<open>None\<close> on a miss.\<close>

definition get_cached :: "env \<Rightarrow> string \<Rightarrow> state \<Rightarrow> pyval \<times> state" where
  "get_cached env key s =
     (if ENABLE_CACHE \<and> key \<in> dom (cache s)
      then (the (cache s key), trace env ''cache_hit'' (PStr key) s)
      else (PNone, s))"

definition set_cache :: "env \<Rightarrow> string \<Rightarrow> pyval \<Rightarrow> state \<Rightarrow> state" where
  "set_cache env key v s =
     (if ENABLE_CACHE then trace env ''cache_set'' (PStr key) (s\<lparr>cache := (cache s)(key \<mapsto> v)\<rparr>)
      else s)"

definition check_circuit :: "env \<Rightarrow> string \<Rightarrow> state \<Rightarrow> (exn + unit) \<times> state" where
  "check_circuit env key s =
     (case circuit_open_until s key of
        None \<Rightarrow> (Inr (), s)
      | Some open_until \<Rightarrow>
          if open_until \<noteq> 0 then
            (case time_time env s of (t, s') \<Rightarrow>
               if t < open_until then (Inl (Exn ResourceReadError ''Circuit breaker open''), s')
               else (Inr (), s'))
          else (Inr (), s))"

definition record_failure :: "env \<Rightarrow> string \<Rightarrow> state \<Rightarrow> state" where
  "record_failure env key s =
     (let n = (case failure_count s key of None \<Rightarrow> 0 | Some c \<Rightarrow> c) + 1;
          s1 = s\<lparr>failure_count := (failure_count s)(key \<mapsto> n)\<rparr>
      in if n \<ge> FAILURE_THRESHOLD then
           (case time_time env s1 of (t, s2) \<Rightarrow>
              trace env ''circuit_opened'' (PStr key)
                (s2\<lparr>circuit_open_until :=
                       (circuit_open_until s2)(key \<mapsto> t + CIRCUIT_BREAKER_COOLDOWN)\<rparr>))
         else s1)"

definition record_success :: "string \<Rightarrow> state \<Rightarrow> state" where
  "record_success key s =
     s\<lparr>failure_count := (failure_count s)(key \<mapsto> 0),
       circuit_open_until := (circuit_open_until s)(key := None)\<rparr>"

text \<open>
  The body of \<open>for attempt in range(MAX_RETRIES + 1)\<close> in \<open>read_resource\<close>, as a
  recursion over the attempts left. Falling out of the loop returns \<open>None\<close>.
\<close>

fun read_resource_loop ::
  "env \<Rightarrow> string \<Rightarrow> string \<Rightarrow> real \<Rightarrow> nat list \<Rightarrow> state \<Rightarrow> (exn + pyval) \<times> state" where
  "read_resource_loop env uri key start [] s = (Inr PNone, s)"
| "read_resource_loop env uri key start (attempt # rest) s =
     (case time_time env s of (t, s1) \<Rightarrow>
        if t - start > RESOURCE_TIMEOUT_SECONDS
        then (Inl (Exn TimeoutError ''Resource read timeout''), s1)
        else
          (case send env (ReadResource uri) (trace env ''read_resource'' (PStr uri) s1) of
             (Inr result, s2) \<Rightarrow>
               (Inr result,
                add_to_context env
                  (PDict [(''type'', PStr ''resource''), (''uri'', PStr uri), (''result'', result)])
                  (set_cache env key result (record_success key s2)))
           | (Inl e, s2) \<Rightarrow>
               if exn_cls e = PermissionError \<or> exn_cls e = TimeoutError then (Inl e, s2)
               else if is_Exception e then
                 (let s3 = record_failure env key
                             (trace env ''resource_error'' (PStr (exn_msg e)) s2)
                  in if attempt = MAX_RETRIES
                     then (Inl (Exn ResourceReadError (exn_msg e)), s3)
                     else read_resource_loop env uri key start rest s3)
               else (Inl e, s2)))"

definition read_resource :: "env \<Rightarrow> string \<Rightarrow> string \<Rightarrow> state \<Rightarrow> (exn + pyval) \<times> state" where
  "read_resource env server uri s =
     (case check_cancelled s of
        Inl e \<Rightarrow> (Inl e, s)
      | Inr _ \<Rightarrow>
          if \<not> is_resource_allowed server uri
          then (Inl (Exn PermissionError (''Resource not allowed: '' @ uri)), s)
          else
            (case cache_key env ''resource'' server (PStr uri) PNone of
               Inl e \<Rightarrow> (Inl e, s)
             | Inr key \<Rightarrow>
                 (case check_circuit env key s of
                    (Inl e, s1) \<Rightarrow> (Inl e, s1)
                  | (Inr _, s1) \<Rightarrow>
                      (case get_cached env key s1 of (cached, s2) \<Rightarrow>
                         if truthy cached then (Inr cached, s2)
                         else
                           (case time_time env s2 of (start, s3) \<Rightarrow>
                              read_resource_loop env uri key start [0 ..< MAX_RETRIES + 1] s3)))))"

text \<open>The same loop in \<open>call_tool\<close>: no deadline, and only \<open>PermissionError\<close> passes through.\<close>

fun call_tool_loop ::
  "env \<Rightarrow> pyval \<Rightarrow> pyval \<Rightarrow> string \<Rightarrow> nat list \<Rightarrow> state \<Rightarrow> (exn + pyval) \<times> state" where
  "call_tool_loop env name arguments key [] s = (Inr PNone, s)"
| "call_tool_loop env name arguments key (attempt # rest) s =
     (case send env (CallTool name arguments)
             (trace env ''call_tool'' (PDict [(''name'', name), (''arguments'', arguments)]) s) of
        (Inr result, s2) \<Rightarrow>
          (Inr result,
           add_to_context env
             (PDict [(''type'', PStr ''tool''), (''name'', name), (''result'', result)])
             (set_cache env key result (record_success key s2)))
      | (Inl e, s2) \<Rightarrow>
          if exn_cls e = PermissionError then (Inl e, s2)
          else if is_Exception e then
            (let s3 = record_failure env key (trace env ''tool_error'' (PStr (exn_msg e)) s2)
             in if attempt = MAX_RETRIES
                then (Inl (Exn ToolExecutionError (exn_msg e)), s3)
                else call_tool_loop env name arguments key rest s3)
          else (Inl e, s2))"

definition call_tool :: "env \<Rightarrow> string \<Rightarrow> pyval \<Rightarrow> pyval \<Rightarrow> state \<Rightarrow> (exn + pyval) \<times> state" where
  "call_tool env server name arguments s =
     (case check_cancelled s of
        Inl e \<Rightarrow> (Inl e, s)
      | Inr _ \<Rightarrow>
          (case is_tool_allowed server name of
             Inl e \<Rightarrow> (Inl e, s)
           | Inr allowed \<Rightarrow>
               if \<not> allowed
               then (Inl (Exn PermissionError (''Tool not allowed: '' @ name_str env name)), s)
               else
                 (case cache_key env ''tool'' server name arguments of
                    Inl e \<Rightarrow> (Inl e, s)
                  | Inr key \<Rightarrow>
                      (case check_circuit env key s of
                         (Inl e, s1) \<Rightarrow> (Inl e, s1)
                       | (Inr _, s1) \<Rightarrow>
                           (case get_cached env key s1 of (cached, s2) \<Rightarrow>
                              if truthy cached then (Inr cached, s2)
                              else call_tool_loop env name arguments key
                                     [0 ..< MAX_RETRIES + 1] s2)))))"

text \<open>
  \<open>get_prompt\<close>: the template comes from the server, the text from the LLM. Nothing here
  is retried and nothing is caught.
\<close>

definition prompt_text :: "env \<Rightarrow> pyval \<Rightarrow> pyval" where
  "prompt_text env prompt_messages =
     (case prompt_messages of
        PList (raw # others) \<Rightarrow>
          (case raw of
             PDict kvs \<Rightarrow> (case map_of kvs ''content'' of
                            None \<Rightarrow> PStr (py_str env raw) | Some c \<Rightarrow> c)
           | _ \<Rightarrow> PStr (py_str env raw))
      | _ \<Rightarrow> PStr (py_str env prompt_messages))"

definition get_prompt :: "env \<Rightarrow> string \<Rightarrow> pyval \<Rightarrow> pyval \<Rightarrow> state \<Rightarrow> (exn + pyval) \<times> state" where
  "get_prompt env server name arguments s =
     (case check_cancelled s of
        Inl e \<Rightarrow> (Inl e, s)
      | Inr _ \<Rightarrow>
          (case is_prompt_allowed server name of
             Inl e \<Rightarrow> (Inl e, s)
           | Inr allowed \<Rightarrow>
               if \<not> allowed
               then (Inl (Exn PermissionError (''Prompt not allowed: '' @ name_str env name)), s)
               else
                 (case cache_key env ''prompt'' server name arguments of
                    Inl e \<Rightarrow> (Inl e, s)
                  | Inr key \<Rightarrow>
                      (case get_cached env key s of (cached, s1) \<Rightarrow>
                         if truthy cached then (Inr cached, s1)
                         else
                           (case send env (GetPrompt name arguments)
                                   (trace env ''get_prompt_template'' name s1) of
                              (Inl e, s2) \<Rightarrow> (Inl e, s2)
                            | (Inr prompt_messages, s2) \<Rightarrow>
                                (let s3 = trace env ''ollama_call'' name s2;
                                     ptext = prompt_text env prompt_messages;
                                     s4 = s3\<lparr>events := events s3 @ [LLMCall ptext]\<rparr>
                                 in case run_llm env (length (events s3)) ptext of
                                      Inl e \<Rightarrow> (Inl e, s4)
                                    | Inr response \<Rightarrow>
                                        (Inr response,
                                         add_to_context env
                                           (PDict [(''type'', PStr ''prompt''), (''name'', name),
                                                   (''response'', response)])
                                           (set_cache env key response s4))))))))"

text \<open>The failure counter of a key, as \<open>self._failure_count.get(key, 0)\<close> reads it.\<close>

definition failures :: "state \<Rightarrow> string \<Rightarrow> int" where
  "failures s key = (case failure_count s key of None \<Rightarrow> 0 | Some c \<Rightarrow> c)"

text \<open>The client as \<open>__init__\<close> leaves it.\<close>

definition init_state :: state where
  "init_state =
     \<lparr>context_buffer = [], trace_log = [], cache = Map.empty, failure_count = Map.empty,
      circuit_open_until = Map.empty, cancelled = False, events = [], clock_reads = 0\<rparr>"

subsection \<open>Sample environments\<close>

text \<open>
  Two tool servers for the concrete runs below: one that answers every request with
  the string \<open>ok\<close>, one that fails every request with a connection error. The clock
  stands still, and \<open>json.dumps\<close> is given on the two arguments the runs use (\<open>None\<close>
  and the empty dict).
\<close>

definition sample_dumps :: "pyval \<Rightarrow> exn + string" where
  "sample_dumps v = Inr (if v = PNone then ''null'' else ''{}'')"

definition demo_env :: env where
  "demo_env =
     \<lparr>transport = (\<lambda>n rq. Inr (PStr ''ok'')), run_llm = (\<lambda>n p. Inr (PStr ''text'')),
      clock = (\<lambda>n. 0), json_dumps = sample_dumps, py_str = (\<lambda>v. []),
      type_str = (\<lambda>v. []), json_loads = (\<lambda>t. None)\<rparr>"

definition failing_env :: env where
  "failing_env =
     \<lparr>transport = (\<lambda>n rq. Inl (Exn OtherException ''connection lost'')),
      run_llm = (\<lambda>n p. Inr (PStr ''text'')),
      clock = (\<lambda>n. 0), json_dumps = sample_dumps, py_str = (\<lambda>v. []),
      type_str = (\<lambda>v. []), json_loads = (\<lambda>t. None)\<rparr>"

text \<open>
  A server that answers every request with a result object, a clock that ticks, and
  \<open>json.dumps(sort_keys=True)\<close> as it is on the two orders of one two-key mapping.
\<close>

definition listing :: pyval where
  "listing = PObj [(''content'', PList [PStr ''a.txt''])]"

definition path_pattern_json :: string where
  "path_pattern_json =
     ''{'' @ [CHR 0x22] @ ''path'' @ [CHR 0x22] @ '': '' @ [CHR 0x22] @ ''.'' @ [CHR 0x22]
     @ '', '' @ [CHR 0x22] @ ''pattern'' @ [CHR 0x22] @ '': '' @ [CHR 0x22] @ ''*''
     @ [CHR 0x22] @ ''}''"

definition sorted_dumps :: "pyval \<Rightarrow> exn + string" where
  "sorted_dumps v =
     Inr (if v = PNone then ''null''
          else if v = PDict [(''path'', PStr ''.''), (''pattern'', PStr ''*'')]
                  \<or> v = PDict [(''pattern'', PStr ''*''), (''path'', PStr ''.'')]
          then path_pattern_json
          else ''{}'')"

definition object_env :: env where
  "object_env =
     \<lparr>transport = (\<lambda>n rq. Inr listing), run_llm = (\<lambda>n p. Inr (PStr ''text'')),
      clock = (\<lambda>n. real n), json_dumps = sorted_dumps, py_str = (\<lambda>v. []),
      type_str = (\<lambda>v. []), json_loads = (\<lambda>t. None)\<rparr>"

section \<open>Planner (planner.py)\<close>

text \<open>
  \<open>SubTask\<close> and \<open>TaskPlan\<close> with the field types the dataclasses declare. The
  fields \<open>status\<close>, \<open>result\<close> and \<open>error\<close> of a subtask are never written by the
  code modelled here and are left out.
\<close>

record SubTask =
  task_id :: string
  description :: string
  tool_name :: string
  arguments :: pyval
  dependencies :: "string list"
  rollback_action :: pyval

record TaskPlan =
  goal :: string
  subtasks :: "SubTask list"
  execution_order :: "string list"
  validation_errors :: "string list"

definition get_task :: "TaskPlan \<Rightarrow> string \<Rightarrow> SubTask option" where
  "get_task plan tid = find (\<lambda>t. task_id t = tid) (subtasks plan)"

subsection \<open>\<open>compute_execution_order\<close>\<close>

text \<open>
  \<open>in_degree\<close> is a dict keyed by task id; it is only ever read at the id of a subtask
  of the plan, where the comprehension has put a value (the last subtask with that id
  wins), so it is modelled by a total function.
\<close>

definition in_degree_init :: "SubTask list \<Rightarrow> string \<Rightarrow> int" where
  "in_degree_init ts =
     foldl (\<lambda>m t. m(task_id t := int (length (dependencies t)))) (\<lambda>k. 0) ts"

text \<open>
  The inner \<open>for task in self.subtasks\<close> after a task id has been popped: one decrement
  for each subtask that lists the id, however often it lists it.
\<close>

fun relax :: "string \<Rightarrow> SubTask list \<Rightarrow> (string \<Rightarrow> int) \<times> string list
              \<Rightarrow> (string \<Rightarrow> int) \<times> string list" where
  "relax tid [] (deg, queue) = (deg, queue)"
| "relax tid (t # ts) (deg, queue) =
     (if tid \<in> set (dependencies t)
      then (let deg' = deg(task_id t := deg (task_id t) - 1)
            in relax tid ts (deg', if deg' (task_id t) = 0 then queue @ [task_id t] else queue))
      else relax tid ts (deg, queue))"

definition pending :: "SubTask list \<Rightarrow> (string \<Rightarrow> int) \<Rightarrow> string set" where
  "pending ts deg = {k \<in> task_id ` set ts. 0 < deg k}"

lemma finite_pending [simp]: "finite (pending ts deg)"
  by (simp add: pending_def)

lemma relax_measure:
  "relax tid us (deg, queue) = (deg', queue') \<Longrightarrow> set us \<subseteq> set ts \<Longrightarrow>
     length queue' + card (pending ts deg') \<le> length queue + card (pending ts deg)"
proof (induction us arbitrary: deg queue)
  case Nil
  then show ?case by simp
next
  case (Cons t us)
  show ?case
  proof (cases "tid \<in> set (dependencies t)")
    case False
    with Cons show ?thesis by simp
  next
    case True
    define d where "d = deg(task_id t := deg (task_id t) - 1)"
    define q where "q = (if d (task_id t) = 0 then queue @ [task_id t] else queue)"
    from Cons.prems True have "relax tid us (d, q) = (deg', queue')"
      by (simp add: d_def q_def Let_def)
    from Cons.IH [OF this] Cons.prems(2)
    have IH: "length queue' + card (pending ts deg') \<le> length q + card (pending ts d)" by simp
    have sub: "pending ts d \<subseteq> pending ts deg"
      by (auto simp: pending_def d_def split: if_splits)
    have "length q + card (pending ts d) \<le> length queue + card (pending ts deg)"
    proof (cases "d (task_id t) = 0")
      case False
      then show ?thesis using card_mono [OF finite_pending sub] by (simp add: q_def)
    next
      case True
      then have "task_id t \<in> pending ts deg" "task_id t \<notin> pending ts d"
        using Cons.prems(2) by (auto simp: pending_def d_def)
      then have "pending ts d \<subset> pending ts deg" using sub by blast
      from psubset_card_mono [OF finite_pending this] True show ?thesis by (simp add: q_def)
    qed
    with IH show ?thesis by linarith
  qed
qed

text \<open>The \<open>while queue\<close> loop; it ends because no id is put on the queue twice.\<close>

function kahn_loop :: "SubTask list \<Rightarrow> string list \<Rightarrow> string list \<Rightarrow> (string \<Rightarrow> int)
                        \<Rightarrow> string list" where
  "kahn_loop ts [] order deg = order"
| "kahn_loop ts (tid # queue) order deg =
     (case relax tid ts (deg, queue) of
        (deg', queue') \<Rightarrow> kahn_loop ts queue' (order @ [tid]) deg')"
  by pat_completeness auto
termination
proof (relation "measure (\<lambda>(ts, queue, order, deg). length queue + card (pending ts deg))",
       goal_cases)
  case 1
  show ?case by simp
next
  case (2 ts tid queue order deg deg' queue')
  then have "relax tid ts (deg, queue) = (deg', queue')" by simp
  from relax_measure [OF this subset_refl] show ?case by simp
qed

definition compute_execution_order :: "TaskPlan \<Rightarrow> TaskPlan" where
  "compute_execution_order plan =
     (let ts = subtasks plan;
          deg = in_degree_init ts;
          queue = map task_id (filter (\<lambda>t. deg (task_id t) = 0) ts)
      in plan\<lparr>execution_order := kahn_loop ts queue [] deg\<rparr>)"

subsection \<open>\<open>validate_with_tools\<close>\<close>

text \<open>
  \<open>has_cycle\<close> is a recursive closure over two mutable sets. The recursion is as deep
  as the longest dependency chain, and Python stops it at the interpreter's recursion
  limit; the first argument is the depth still allowed, and running out of it is the
  \<open>RecursionError\<close> (a subclass of \<open>Exception\<close>).
\<close>

fun has_cycle :: "nat \<Rightarrow> TaskPlan \<Rightarrow> string \<Rightarrow> string set \<times> string set
                    \<Rightarrow> exn + bool \<times> string set \<times> string set"
  and has_cycle_deps :: "nat \<Rightarrow> TaskPlan \<Rightarrow> string list \<Rightarrow> string set \<times> string set
                    \<Rightarrow> exn + bool \<times> string set \<times> string set" where
  "has_cycle 0 plan tid (visited, rec_stack) =
     Inl (Exn OtherException ''maximum recursion depth exceeded'')"
| "has_cycle (Suc n) plan tid (visited, rec_stack) =
     (case has_cycle_deps n plan
             (case get_task plan tid of None \<Rightarrow> [] | Some t \<Rightarrow> dependencies t)
             (insert tid visited, insert tid rec_stack) of
        Inl e \<Rightarrow> Inl e
      | Inr (True, vis, stk) \<Rightarrow> Inr (True, vis, stk)
      | Inr (False, vis, stk) \<Rightarrow> Inr (False, vis, stk - {tid}))"
| "has_cycle_deps n plan [] (visited, rec_stack) = Inr (False, visited, rec_stack)"
| "has_cycle_deps n plan (dep # deps) (visited, rec_stack) =
     (if dep \<notin> visited then
        (case has_cycle n plan dep (visited, rec_stack) of
           Inl e \<Rightarrow> Inl e
         | Inr (True, vis, stk) \<Rightarrow> Inr (True, vis, stk)
         | Inr (False, vis, stk) \<Rightarrow> has_cycle_deps n plan deps (vis, stk))
      else if dep \<in> rec_stack then Inr (True, visited, rec_stack)
      else has_cycle_deps n plan deps (visited, rec_stack))"

fun has_circular_loop :: "nat \<Rightarrow> TaskPlan \<Rightarrow> SubTask list \<Rightarrow> string set \<times> string set
                            \<Rightarrow> exn + bool" where
  "has_circular_loop n plan [] (visited, rec_stack) = Inr False"
| "has_circular_loop n plan (t # ts) (visited, rec_stack) =
     (if task_id t \<notin> visited then
        (case has_cycle n plan (task_id t) (visited, rec_stack) of
           Inl e \<Rightarrow> Inl e
         | Inr (True, vis, stk) \<Rightarrow> Inr True
         | Inr (False, vis, stk) \<Rightarrow> has_circular_loop n plan ts (vis, stk))
      else has_circular_loop n plan ts (visited, rec_stack))"

definition has_circular_dependencies :: "nat \<Rightarrow> TaskPlan \<Rightarrow> exn + bool" where
  "has_circular_dependencies limit plan = has_circular_loop limit plan (subtasks plan) ({}, {})"

fun validate_execution_order_loop :: "TaskPlan \<Rightarrow> string list \<Rightarrow> string set \<Rightarrow> bool" where
  "validate_execution_order_loop plan [] completed = True"
| "validate_execution_order_loop plan (tid # rest) completed =
     (case get_task plan tid of
        None \<Rightarrow> False
      | Some t \<Rightarrow>
          if \<exists>dep \<in> set (dependencies t). dep \<notin> completed then False
          else validate_execution_order_loop plan rest (insert tid completed))"

definition validate_execution_order :: "TaskPlan \<Rightarrow> bool" where
  "validate_execution_order plan = validate_execution_order_loop plan (execution_order plan) {}"

text \<open>The four checks; the errors are collected in the order the checks run.\<close>

definition validate_with_tools :: "nat \<Rightarrow> string set \<Rightarrow> TaskPlan \<Rightarrow> exn + TaskPlan" where
  "validate_with_tools limit valid_tools plan =
     (let e1 = concat (map (\<lambda>t. if tool_name t \<notin> valid_tools
                               then [''Task '' @ task_id t @ '': Invalid tool '' @ tool_name t]
                               else []) (subtasks plan))
      in ebind (has_circular_dependencies limit plan) (\<lambda>cyc.
           let e2 = (if cyc then [''Circular dependency detected in task plan''] else []);
               task_ids = task_id ` set (subtasks plan);
               e3 = concat (map (\<lambda>t. concat (map (\<lambda>dep. if dep \<notin> task_ids
                                   then [''Task '' @ task_id t @ '': Unknown dependency '' @ dep]
                                   else []) (dependencies t))) (subtasks plan));
               e4 = (if \<not> validate_execution_order plan
                     then [''Invalid execution order - dependencies not satisfied''] else [])
           in Inr (plan\<lparr>validation_errors := e1 @ e2 @ e3 @ e4\<rparr>)))"

text \<open>
  The end of the \<open>try\<close> block of \<open>decompose_task\<close>, after the LLM's JSON has been read
  into subtasks: build the plan, order it, validate it. An exception on the way is
  caught by \<open>decompose_task\<close>, which then returns the fallback plan of one
  \<open>run_command\<close> subtask, ordered but not validated.
\<close>

definition fallback_plan :: "string \<Rightarrow> TaskPlan" where
  "fallback_plan g =
     compute_execution_order
       \<lparr>goal = g,
        subtasks = [\<lparr>task_id = ''fallback_1'', description = g, tool_name = ''run_command'',
                     arguments = PDict [(''command'', PStr (''echo 'Task: '' @ g @ [CHR 39]))],
                     dependencies = [], rollback_action = PNone\<rparr>],
        execution_order = [], validation_errors = []\<rparr>"

definition decompose_task_plan :: "nat \<Rightarrow> string set \<Rightarrow> string \<Rightarrow> SubTask list \<Rightarrow> TaskPlan" where
  "decompose_task_plan limit valid_tools g ts =
     (case validate_with_tools limit valid_tools
             (compute_execution_order
                \<lparr>goal = g, subtasks = ts, execution_order = [], validation_errors = []\<rparr>) of
        Inr plan \<Rightarrow> plan
      | Inl e \<Rightarrow> fallback_plan g)"

text \<open>
  A plan the LLM can return: the second subtask names its one prerequisite twice.
\<close>

definition dup_plan_subtasks :: "SubTask list" where
  "dup_plan_subtasks =
     [\<lparr>task_id = ''task_1'', description = ''list'', tool_name = ''list_directory'',
       arguments = PDict [], dependencies = [], rollback_action = PNone\<rparr>,
      \<lparr>task_id = ''task_2'', description = ''read'', tool_name = ''read_file'',
       arguments = PDict [(''path'', PStr ''README.md'')],
       dependencies = [''task_1'', ''task_1''], rollback_action = PNone\<rparr>]"

text \<open>The plan the planner makes of it.\<close>

definition dup_plan :: TaskPlan where
  "dup_plan = \<lparr>goal = ''show the readme'', subtasks = dup_plan_subtasks,
                execution_order = [''task_1''], validation_errors = []\<rparr>"

section \<open>Self-correcting executor (agentic_loop.py)\<close>

datatype ReflectionType = SUCCESS | PARTIAL_SUCCESS | FAILURE | NEED_MORE_INFO

record Observation =
  o_tool_name :: pyval
  o_arguments :: pyval
  o_result :: pyval
  o_success :: pyval
  o_error :: pyval
  o_timestamp :: real

text \<open>\<open>observation_id\<close> holds the number n of the id \<open>obs_n\<close>.\<close>

record Reflection =
  observation_id :: nat
  reflection_type :: ReflectionType
  insights :: pyval
  suggested_actions :: pyval
  confidence :: pyval
  reasoning :: pyval

record executor =
  max_retries :: int
  debug_mode :: bool
  observations_history :: "Observation list"
  reflections_history :: "Reflection list"

text \<open>\<open>getattr\<close> on a value: only an object carries attributes.\<close>

fun py_attr :: "pyval \<Rightarrow> string \<Rightarrow> pyval option" where
  "py_attr (PObj attrs) a = map_of attrs a"
| "py_attr _ a = None"

fun is_dict :: "pyval \<Rightarrow> bool" where
  "is_dict (PDict kvs) = True"
| "is_dict _ = False"

text \<open>
  \<open>_extract_tool_result\<close>: the \<open>data\<close> attribute when it is a dict, else the JSON in
  the text of the first content item (wrapped as a success when it does not parse), else
  the value itself when it is a dict, else a failure.
\<close>

definition wrap_text :: "pyval \<Rightarrow> pyval" where
  "wrap_text txt = PDict [(''success'', PBool True), (''output'', txt)]"

definition extract_tool_result :: "env \<Rightarrow> pyval \<Rightarrow> pyval" where
  "extract_tool_result env raw_result =
     (case (case py_attr raw_result ''data'' of
              Some (PDict kvs) \<Rightarrow> Some (PDict kvs) | _ \<Rightarrow> None) of
        Some d \<Rightarrow> d
      | None \<Rightarrow>
          (case (case py_attr raw_result ''content'' of
                   Some (PList (first_item # others)) \<Rightarrow>
                     (case py_attr first_item ''text'' of
                        None \<Rightarrow> None
                      | Some (PStr t) \<Rightarrow>
                          Some (case json_loads env t of
                                  Some v \<Rightarrow> v | None \<Rightarrow> wrap_text (PStr t))
                      | Some txt \<Rightarrow> Some (wrap_text txt))
                 | _ \<Rightarrow> None) of
             Some r \<Rightarrow> r
           | None \<Rightarrow>
               if is_dict raw_result then raw_result
               else PDict [(''success'', PBool False),
                           (''error'', PStr (''Cannot extract result from ''
                                             @ type_str env raw_result))]))"

text \<open>\<open>observe\<close>: the success flag is read from a dict result, and is false otherwise.\<close>

definition observe ::
  "env \<Rightarrow> executor \<Rightarrow> pyval \<Rightarrow> pyval \<Rightarrow> pyval \<Rightarrow> state \<Rightarrow> Observation \<times> executor \<times> state" where
  "observe env ex tool args result s =
     (case time_time env s of (t, s') \<Rightarrow>
        (let observation =
               \<lparr>o_tool_name = tool, o_arguments = args, o_result = result,
                o_success = (case result of
                               PDict kvs \<Rightarrow> (case map_of kvs ''success'' of
                                              None \<Rightarrow> PBool False | Some v \<Rightarrow> v)
                             | _ \<Rightarrow> PBool False),
                o_error = (case result of
                             PDict kvs \<Rightarrow> (case map_of kvs ''error'' of
                                            None \<Rightarrow> PNone | Some v \<Rightarrow> v)
                           | _ \<Rightarrow> PNone),
                o_timestamp = t\<rparr>
         in (observation,
             ex\<lparr>observations_history := observations_history ex @ [observation]\<rparr>, s')))"

text \<open>
  \<open>re.search(r'\{.*\}', response, re.DOTALL)\<close>: from the first opening brace to the
  last closing brace, when there is one after it.
\<close>

definition brace_match :: "string \<Rightarrow> string option" where
  "brace_match response =
     (let from_open = dropWhile (\<lambda>c. c \<noteq> CHR ''{'') response;
          m = rev (dropWhile (\<lambda>c. c \<noteq> CHR ''}'') (rev from_open))
      in if m = [] then None else Some m)"

fun reflection_type_of :: "pyval \<Rightarrow> ReflectionType option" where
  "reflection_type_of (PStr v) =
     (if v = ''success'' then Some SUCCESS
      else if v = ''partial_success'' then Some PARTIAL_SUCCESS
      else if v = ''failure'' then Some FAILURE
      else if v = ''need_more_info'' then Some NEED_MORE_INFO
      else None)"
| "reflection_type_of _ = None"

text \<open>What the debug printing of \<open>reflect\<close> needs: a number for \<open>:.2f\<close>, a length.\<close>

fun formats_as_float :: "pyval \<Rightarrow> bool" where
  "formats_as_float (PInt i) = True"
| "formats_as_float (PFloat r) = True"
| "formats_as_float (PBool b) = True"
| "formats_as_float _ = False"

fun has_len :: "pyval \<Rightarrow> bool" where
  "has_len (PStr t) = True"
| "has_len (PList xs) = True"
| "has_len (PDict kvs) = True"
| "has_len _ = False"

text \<open>
  The prompt of \<open>reflect\<close>: the fixed instructions of the source are shortened here to
  the lines that carry a value.
\<close>

definition reflect_prompt :: "env \<Rightarrow> Observation \<Rightarrow> string \<Rightarrow> string" where
  "reflect_prompt env observation g =
     ''GOAL: '' @ g
     @ '' TOOL EXECUTED: '' @ py_str env (o_tool_name observation)
     @ '' ARGUMENTS: '' @ py_str env (o_arguments observation)
     @ '' SUCCESS: '' @ py_str env (o_success observation)
     @ '' RESULT: '' @ py_str env (o_result observation)
     @ '' ERROR: '' @ py_str env (o_error observation)"

definition fallback_reflection :: "executor \<Rightarrow> Reflection" where
  "fallback_reflection ex =
     \<lparr>observation_id = length (observations_history ex), reflection_type = FAILURE,
      insights = PList [PStr ''Failed to analyze observation''],
      suggested_actions = PList [], confidence = PFloat 0,
      reasoning = PStr ''Error during reflection''\<rparr>"

text \<open>The parsing inside the \<open>try\<close> of \<open>reflect\<close>; \<open>None\<close> is any exception there.\<close>

definition parse_reflection :: "env \<Rightarrow> executor \<Rightarrow> pyval \<Rightarrow> Reflection option" where
  "parse_reflection env ex response =
     (case response of
        PStr txt \<Rightarrow>
          (case json_loads env (case brace_match txt of Some m \<Rightarrow> m | None \<Rightarrow> txt) of
             Some (PDict kvs) \<Rightarrow>
               (case map_of kvs ''reflection_type'' of
                  None \<Rightarrow> None
                | Some v \<Rightarrow>
                    (case reflection_type_of v of
                       None \<Rightarrow> None
                     | Some ty \<Rightarrow>
                         Some \<lparr>observation_id = length (observations_history ex),
                               reflection_type = ty,
                               insights = (case map_of kvs ''insights'' of
                                             None \<Rightarrow> PList [] | Some x \<Rightarrow> x),
                               suggested_actions = (case map_of kvs ''suggested_actions'' of
                                                      None \<Rightarrow> PList [] | Some x \<Rightarrow> x),
                               confidence = (case map_of kvs ''confidence'' of
                                               None \<Rightarrow> PFloat (1 / 2) | Some x \<Rightarrow> x),
                               reasoning = (case map_of kvs ''reasoning'' of
                                              None \<Rightarrow> PStr [] | Some x \<Rightarrow> x)\<rparr>))
           | _ \<Rightarrow> None)
      | _ \<Rightarrow> None)"

text \<open>
  \<open>reflect\<close>. Every \<open>Exception\<close> inside the \<open>try\<close> gives the fallback reflection,
  which has no suggestion; a parsed reflection is appended to the history before the
  debug printing, which can still raise.
\<close>

definition reflect ::
  "env \<Rightarrow> executor \<Rightarrow> Observation \<Rightarrow> string \<Rightarrow> state \<Rightarrow> (exn + Reflection) \<times> executor \<times> state" where
  "reflect env ex observation g s =
     (let prompt = PStr (reflect_prompt env observation g);
          s1 = s\<lparr>events := events s @ [LLMCall prompt]\<rparr>
      in case run_llm env (length (events s)) prompt of
           Inl e \<Rightarrow>
             if is_Exception e
             then (Inr (fallback_reflection ex), ex, s1\<lparr>events := events s1 @ [Printed ''Reflection failed'']\<rparr>)
             else (Inl e, ex, s1)
         | Inr response \<Rightarrow>
             (case parse_reflection env ex response of
                None \<Rightarrow> (Inr (fallback_reflection ex), ex,
                          s1\<lparr>events := events s1 @ [Printed ''Reflection failed'']\<rparr>)
              | Some reflection \<Rightarrow>
                  (let ex1 = ex\<lparr>reflections_history := reflections_history ex @ [reflection]\<rparr>
                   in if debug_mode ex \<and> \<not> (formats_as_float (confidence reflection)
                                              \<and> has_len (suggested_actions reflection))
                      then (Inr (fallback_reflection ex1), ex1,
                            s1\<lparr>events := events s1 @ [Printed ''Reflection failed'']\<rparr>)
                      else (Inr reflection, ex1, s1))))"

text \<open>\<open>x[0]\<close> on a truthy value.\<close>

fun py_first :: "pyval \<Rightarrow> exn + pyval" where
  "py_first (PList (x # xs)) = Inr x"
| "py_first (PList []) = Inl (Exn OtherException ''list index out of range'')"
| "py_first (PStr (c # cs)) = Inr (PStr [c])"
| "py_first (PStr []) = Inl (Exn OtherException ''string index out of range'')"
| "py_first (PDict kvs) = Inl (Exn KeyError ''0'')"
| "py_first _ = Inl (Exn TypeError ''object is not subscriptable'')"

text \<open>
  The \<open>while attempt < self.max_retries\<close> loop of \<open>act_with_retry\<close>. \<open>mr\<close> is
  \<open>self.max_retries\<close>, \<open>result\<close> is the local variable of that name, unbound before the
  first round. Each round logs a \<open>Dispatch\<close> event before it calls the client.
\<close>

function act_loop ::
  "env \<Rightarrow> string \<Rightarrow> string \<Rightarrow> int \<Rightarrow> int \<Rightarrow> pyval \<Rightarrow> pyval \<Rightarrow> pyval option \<Rightarrow> executor \<Rightarrow> state
     \<Rightarrow> (exn + pyval) \<times> executor \<times> state" where
  "act_loop env server g mr attempt current_tool current_args result ex s =
     (if attempt < mr then
        (case call_tool env server current_tool current_args
                (s\<lparr>events := events s @ [Dispatch current_tool current_args]\<rparr>) of
           (called, s1) \<Rightarrow>
             (case (case called of
                      Inr raw_result \<Rightarrow> Inr (extract_tool_result env raw_result)
                    | Inl e \<Rightarrow>
                        if is_Exception e
                        then Inr (PDict [(''success'', PBool False), (''error'', PStr (exn_msg e))])
                        else Inl e) of
                Inl e \<Rightarrow> (Inl e, ex, s1)
              | Inr res \<Rightarrow>
                  (case observe env ex current_tool current_args res s1 of
                     (observation, ex1, s2) \<Rightarrow>
                       if truthy (o_success observation) then (Inr res, ex1, s2)
                       else if attempt + 1 \<ge> mr
                       then (Inr res, ex1,
                             s2\<lparr>events := events s2 @ [Printed ''Max retries reached'']\<rparr>)
                       else
                         (case reflect env ex1 observation g s2 of
                            (Inl e, ex2, s3) \<Rightarrow> (Inl e, ex2, s3)
                          | (Inr reflection, ex2, s3) \<Rightarrow>
                              if \<not> truthy (suggested_actions reflection)
                              then (Inr res, ex2,
                                    s3\<lparr>events := events s3
                                           @ [Printed ''No alternative actions suggested'']\<rparr>)
                              else
                                (case ebind (py_first (suggested_actions reflection)) (\<lambda>suggested.
                                        ebind (py_get suggested ''tool'' current_tool) (\<lambda>tool'.
                                        ebind (py_get suggested ''arguments'' (PDict [])) (\<lambda>args'.
                                          Inr (tool', args')))) of
                                   Inl e \<Rightarrow> (Inl e, ex2, s3)
                                 | Inr (tool', args') \<Rightarrow>
                                     act_loop env server g mr (attempt + 1) tool' args'
                                       (Some res) ex2 s3)))))
      else
        (case result of
           None \<Rightarrow> (Inl (Exn UnboundLocalError ''result''), ex, s)
         | Some res \<Rightarrow> (Inr res, ex, s)))"
  by pat_completeness auto
termination
  by (relation "measure (\<lambda>(env, server, g, mr, attempt, tool, args, result, ex, s).
                   nat (mr - attempt))") auto

definition act_with_retry ::
  "env \<Rightarrow> executor \<Rightarrow> string \<Rightarrow> pyval \<Rightarrow> pyval \<Rightarrow> string \<Rightarrow> state
     \<Rightarrow> (exn + pyval) \<times> executor \<times> state" where
  "act_with_retry env ex server initial_tool initial_args g s =
     act_loop env server g (max_retries ex) 0 initial_tool initial_args None ex s"

text \<open>How many times the executor called the client, by the log.\<close>

fun is_dispatch :: "event \<Rightarrow> bool" where
  "is_dispatch (Dispatch tool args) = True"
| "is_dispatch _ = False"

definition dispatches :: "state \<Rightarrow> nat" where
  "dispatches s = length (filter is_dispatch (events s))"

text \<open>
  The events that leave the process, and the relation between the states before and
  after a step that logs nothing else.
\<close>

fun is_outside :: "event \<Rightarrow> bool" where
  "is_outside (Transport rq) = True"
| "is_outside (LLMCall p) = True"
| "is_outside _ = False"

definition client_step :: "state \<Rightarrow> state \<Rightarrow> bool" where
  "client_step s s' = (\<exists>es. events s' = events s @ es \<and> list_all is_outside es)"

text \<open>A server that answers every call with a failure, and an executor allowed one attempt.\<close>

definition enoent :: pyval where
  "enoent = PDict [(''success'', PBool False), (''error'', PStr ''ENOENT'')]"

definition enoent_env :: env where
  "enoent_env =
     \<lparr>transport = (\<lambda>n rq. Inr enoent), run_llm = (\<lambda>n p. Inr (PStr ''text'')),
      clock = (\<lambda>n. 0), json_dumps = sample_dumps, py_str = (\<lambda>v. []),
      type_str = (\<lambda>v. []), json_loads = (\<lambda>t. None)\<rparr>"

definition one_shot :: executor where
  "one_shot = \<lparr>max_retries = 1, debug_mode = False, observations_history = [],
               reflections_history = []\<rparr>"

section \<open>Agent (agent.py)\<close>

text \<open>
  The policy gates. The agent asks its own \<open>PolicyEngine\<close>; each evaluation is logged
  as a \<open>PolicyEval\<close> event. A deny is raised as \<open>PermissionError\<close>, and the gate
  returns false exactly on a dry-run decision.
\<close>

definition gate_resource :: "bool \<Rightarrow> string \<Rightarrow> state \<Rightarrow> (exn + bool) \<times> state" where
  "gate_resource dry uri s =
     (let payload = [(''uri'', PStr uri)];
          s1 = s\<lparr>events := events s @ [PolicyEval ''resource'' payload]\<rparr>
      in case evaluate dry ''resource'' payload of
           Inl e \<Rightarrow> (Inl e, s1)
         | Inr decision \<Rightarrow>
             if decision = DENY then (Inl (Exn PermissionError (''Policy denied: '' @ uri)), s1)
             else (Inr (decision \<noteq> DRY_RUN), s1))"

definition gate_tool :: "bool \<Rightarrow> string \<Rightarrow> pyval \<Rightarrow> state \<Rightarrow> (exn + bool) \<times> state" where
  "gate_tool dry name args s =
     (let payload = [(''name'', PStr name), (''arguments'', args)];
          s1 = s\<lparr>events := events s @ [PolicyEval ''tool'' payload]\<rparr>
      in case evaluate dry ''tool'' payload of
           Inl e \<Rightarrow> (Inl e, s1)
         | Inr decision \<Rightarrow>
             if decision = DENY then (Inl (Exn PermissionError (''Policy denied: '' @ name)), s1)
             else (Inr (decision \<noteq> DRY_RUN), s1))"

text \<open>
  One entry of \<open>execution_results\<close>, and what \<open>answer\<close> carries through its loop over
  the subtasks: the results so far, the rollback stack, the executor with its
  histories, and the items of the session context.
\<close>

record ExecResult =
  r_task_id :: string
  r_tool :: string
  r_success :: pyval
  r_result :: pyval

record run =
  execution_results :: "ExecResult list"
  rollback_stack :: "(string \<times> pyval) list"
  self_correcting_agent :: executor
  context_items :: "(pyval \<times> string \<times> real) list"

text \<open>\<open>SessionStateManager.add_context\<close> reads the clock twice, for the id and the timestamp.\<close>

definition add_context :: "env \<Rightarrow> pyval \<Rightarrow> string \<Rightarrow> run \<Rightarrow> state \<Rightarrow> run \<times> state" where
  "add_context env content context_type r s =
     (case time_time env s of (t0, s1) \<Rightarrow>
        (case time_time env s1 of (t, s2) \<Rightarrow>
           (r\<lparr>context_items := context_items r @ [(content, context_type, t)]\<rparr>, s2)))"

text \<open>\<open>d[k] = v\<close> on a dict: the key keeps its place, a new key goes last.\<close>

fun dict_set :: "(string \<times> pyval) list \<Rightarrow> string \<Rightarrow> pyval \<Rightarrow> (string \<times> pyval) list" where
  "dict_set [] k v = [(k, v)]"
| "dict_set ((k', v') # kvs) k v =
     (if k' = k then (k, v) # kvs else (k', v') # dict_set kvs k v)"

text \<open>
  \<open>_enhance_arguments_with_results\<close>: a \<open>write_file\<close> task with no content takes
  a report of the latest successful dict result as its content.
\<close>

definition report_content :: "env \<Rightarrow> SubTask \<Rightarrow> pyval \<Rightarrow> string" where
  "report_content env task result_data =
     ''Task: '' @ description task @ [CHR 0x0A] @ [CHR 0x0A]
     @ ''Generated: '' @ task_id task @ [CHR 0x0A] @ [CHR 0x0A]
     @ [CHR 0x0A] @ ''=== Results ==='' @ [CHR 0x0A] @ [CHR 0x0A]
     @ py_str env result_data"

definition enhance_arguments_with_results ::
  "env \<Rightarrow> SubTask \<Rightarrow> ExecResult list \<Rightarrow> exn + pyval" where
  "enhance_arguments_with_results env task previous_results =
     (case arguments task of
        PDict kvs \<Rightarrow>
          if tool_name task = ''write_file''
             \<and> \<not> truthy (case map_of kvs ''content'' of None \<Rightarrow> PNone | Some v \<Rightarrow> v)
          then
            (case find (\<lambda>r. truthy (r_success r) \<and> truthy (r_result r) \<and> is_dict (r_result r))
                       (rev previous_results) of
               None \<Rightarrow> Inr (PDict kvs)
             | Some r \<Rightarrow>
                 Inr (PDict (dict_set kvs ''content''
                        (PStr (report_content env task
                                 (case r_result r of
                                    PDict d \<Rightarrow> (case map_of d ''result'' of
                                                 None \<Rightarrow> PDict d | Some v \<Rightarrow> v)
                                  | v \<Rightarrow> v))))))
          else Inr (PDict kvs)
      | PList xs \<Rightarrow>
          if tool_name task = ''write_file'' then Inl (Exn AttributeError ''get'')
          else Inr (PList xs)
      | _ \<Rightarrow> Inl (Exn AttributeError ''copy''))"

text \<open>
  \<open>deps_complete\<close>: every dependency has an entry of its id with a truthy success in
  the results so far.
\<close>

definition deps_complete :: "SubTask \<Rightarrow> ExecResult list \<Rightarrow> bool" where
  "deps_complete task results =
     list_all (\<lambda>dep_id. list_ex (\<lambda>r. r_task_id r = dep_id \<and> truthy (r_success r)) results)
       (dependencies task)"

text \<open>
  The body of \<open>for task in task_plan.subtasks\<close> in step 4 of \<open>answer\<close>. The first
  component of the result is the exception that leaves the loop, if any. The server
  name is the constant \<open>terminal\<close> of \<open>answer\<close>.
\<close>

definition execute_task ::
  "env \<Rightarrow> bool \<Rightarrow> string \<Rightarrow> SubTask \<Rightarrow> run \<Rightarrow> state \<Rightarrow> exn option \<times> run \<times> state" where
  "execute_task env dry question task r s =
     (if \<not> deps_complete task (execution_results r)
      then (None, r,
            s\<lparr>events := events s
                   @ [Printed (''Skipping '' @ task_id task @ '' - dependencies not met'')]\<rparr>)
      else
        (case enhance_arguments_with_results env task (execution_results r) of
           Inl e \<Rightarrow> (Some e, r, s)
         | Inr enhanced_args \<Rightarrow>
             (case gate_tool dry (tool_name task) (arguments task) s of
                (Inl e, s1) \<Rightarrow> (Some e, r, s1)
              | (Inr False, s1) \<Rightarrow>
                  (None, r,
                   s1\<lparr>events := events s1
                          @ [Printed (''Skipping '' @ task_id task @ '' - policy denied'')]\<rparr>)
              | (Inr True, s1) \<Rightarrow>
                  (case act_with_retry env (self_correcting_agent r) ''terminal''
                          (PStr (tool_name task)) enhanced_args question s1 of
                     (Inl e, ex', s2) \<Rightarrow> (Some e, r\<lparr>self_correcting_agent := ex'\<rparr>, s2)
                   | (Inr result, ex', s2) \<Rightarrow>
                       (case py_get result ''success'' (PBool False) of
                          Inl e \<Rightarrow> (Some e, r\<lparr>self_correcting_agent := ex'\<rparr>, s2)
                        | Inr succ \<Rightarrow>
                            (case add_context env result ''tool_result''
                                    (r\<lparr>execution_results := execution_results r
                                          @ [\<lparr>r_task_id = task_id task, r_tool = tool_name task,
                                              r_success = succ, r_result = result\<rparr>],
                                       rollback_stack :=
                                         (if truthy (rollback_action task)
                                          then rollback_stack r
                                               @ [(task_id task, rollback_action task)]
                                          else rollback_stack r),
                                       self_correcting_agent := ex'\<rparr>) s2 of
                               (r', s3) \<Rightarrow> (None, r', s3)))))))"

fun execute_loop ::
  "env \<Rightarrow> bool \<Rightarrow> string \<Rightarrow> SubTask list \<Rightarrow> run \<Rightarrow> state \<Rightarrow> exn option \<times> run \<times> state" where
  "execute_loop env dry question [] r s = (None, r, s)"
| "execute_loop env dry question (task # tasks) r s =
     (case execute_task env dry question task r s of
        (Some e, r', s') \<Rightarrow> (Some e, r', s')
      | (None, r', s') \<Rightarrow> execute_loop env dry question tasks r' s')"

definition execute_plan ::
  "env \<Rightarrow> bool \<Rightarrow> string \<Rightarrow> TaskPlan \<Rightarrow> run \<Rightarrow> state \<Rightarrow> exn option \<times> run \<times> state" where
  "execute_plan env dry question plan r s =
     execute_loop env dry question (subtasks plan) r s"

text \<open>The loop's variables as \<open>answer\<close> sets them up, for an executor \<open>ex\<close>.\<close>

definition init_run :: "executor \<Rightarrow> run" where
  "init_run ex = \<lparr>execution_results = [], rollback_stack = [], self_correcting_agent = ex,
                  context_items = []\<rparr>"

text \<open>The executor of the agent: \<open>SelfCorrectingAgent(self.llm, max_retries=3, ...)\<close>.\<close>

definition agent_executor :: executor where
  "agent_executor = \<lparr>max_retries = 3, debug_mode = False, observations_history = [],
                     reflections_history = []\<rparr>"

text \<open>A step that only adds to the log.\<close>

definition log_grows :: "state \<Rightarrow> state \<Rightarrow> bool" where
  "log_grows s s' = (\<exists>es. events s' = events s @ es)"

subsection \<open>Sample plans\<close>

text \<open>A server that reports success for every call.\<close>

definition done_ok :: pyval where
  "done_ok = PDict [(''success'', PBool True)]"

definition success_env :: env where
  "success_env =
     \<lparr>transport = (\<lambda>n rq. Inr done_ok), run_llm = (\<lambda>n p. Inr (PStr ''text'')),
      clock = (\<lambda>n. 0), json_dumps = sample_dumps, py_str = (\<lambda>v. []),
      type_str = (\<lambda>v. []), json_loads = (\<lambda>t. None)\<rparr>"

text \<open>A destructive command followed by a harmless listing.\<close>

definition rm_task :: SubTask where
  "rm_task = \<lparr>task_id = ''task_1'', description = ''delete everything'',
              tool_name = ''run_command'',
              arguments = PDict [(''command'', PStr ''rm -rf /'')],
              dependencies = [], rollback_action = PNone\<rparr>"

definition ls_task :: SubTask where
  "ls_task = \<lparr>task_id = ''task_2'', description = ''list the directory'',
              tool_name = ''list_directory'', arguments = PDict [],
              dependencies = [], rollback_action = PNone\<rparr>"

text \<open>A file write, which is a mutating tool.\<close>

definition write_task :: SubTask where
  "write_task = \<lparr>task_id = ''task_1'', description = ''write a note'',
                 tool_name = ''write_file'',
                 arguments = PDict [(''path'', PStr ''note.txt''), (''content'', PStr ''hello'')],
                 dependencies = [], rollback_action = PNone\<rparr>"

text \<open>
  A plan whose subtasks are listed against their dependencies: the reader comes first
  and depends on the lister that comes second.
\<close>

definition reader_task :: SubTask where
  "reader_task = \<lparr>task_id = ''task_2'', description = ''read the file'',
                  tool_name = ''read_file'', arguments = PDict [],
                  dependencies = [''task_1''], rollback_action = PNone\<rparr>"

definition lister_task :: SubTask where
  "lister_task = \<lparr>task_id = ''task_1'', description = ''list the directory'',
                  tool_name = ''list_directory'', arguments = PDict [],
                  dependencies = [], rollback_action = PNone\<rparr>"

definition reversed_plan :: TaskPlan where
  "reversed_plan =
     decompose_task_plan 1000 {''list_directory'', ''read_file''} ''read after listing''
       [reader_task, lister_task]"

definition rm_plan :: TaskPlan where
  "rm_plan = \<lparr>goal = ''Delete everything: run rm -rf /'', subtasks = [rm_task, ls_task],
               execution_order = [''task_1'', ''task_2''], validation_errors = []\<rparr>"

text \<open>The plan the planner makes of them.\<close>

definition reversed_ordered :: TaskPlan where
  "reversed_ordered =
     \<lparr>goal = ''read after listing'', subtasks = [reader_task, lister_task],
      execution_order = [''task_1'', ''task_2''], validation_errors = []\<rparr>"

text \<open>
  The first sample server again, with \<open>json.dumps\<close> as it is on the arguments of the
  destructive command.
\<close>

definition rm_args_json :: string where
  "rm_args_json =
     ''{'' @ [CHR 0x22] @ ''command'' @ [CHR 0x22] @ '': '' @ [CHR 0x22] @ ''rm -rf /''
     @ [CHR 0x22] @ ''}''"

definition rm_env :: env where
  "rm_env = demo_env\<lparr>json_dumps := (\<lambda>v. Inr rm_args_json)\<rparr>"

section \<open>Policy engine: dangerous patterns\<close>

lemma any_in_lower_hit:
  "b \<in> set bs \<Longrightarrow> sublist b (lower c) \<Longrightarrow> any_in_lower bs (PStr c) = Inr True"
  by (induction bs) (auto simp: ebind_def)

lemma any_in_lower_str:
  "any_in_lower bs (PStr c) = Inr (\<exists>b \<in> set bs. sublist b (lower c))"
  by (induction bs) (auto simp: ebind_def)

lemma command_rule_pattern:
  assumes "name = ''run_command'' \<or> name = ''interactive_command''"
    and "map_of payload ''arguments'' = Some (PDict args)"
    and "map_of args ''command'' = Some (PStr c)"
    and "p \<in> set dangerous_patterns"
    and "sublist p (lower c)"
  shows "command_rule payload (PStr name) = Inr True"
  using assms
  by (auto simp: command_rule_def ebind_def any_in_lower_str)

text \<open>
  C10. A tool payload named \<open>run_command\<close> or \<open>interactive_command\<close> whose lowered
  command string contains \<open>/dev/null\<close>, \<open>rm -rf\<close> or \<open>/dev/sda\<close> is denied, whatever the
  dry-run flag and whatever else the command does: a harmless redirection of output to
  \<open>/dev/null\<close> is denied as well.
\<close>

theorem evaluate_dangerous_pattern_deny:
  assumes "map_of payload ''name'' = Some (PStr name)"
    and "name = ''run_command'' \<or> name = ''interactive_command''"
    and "map_of payload ''arguments'' = Some (PDict args)"
    and "map_of args ''command'' = Some (PStr c)"
    and "sublist ''/dev/null'' (lower c) \<or> sublist ''rm -rf'' (lower c)
         \<or> sublist ''/dev/sda'' (lower c)"
  shows "evaluate dry_run ''tool'' payload = Inr DENY"
proof -
  from assms(5) obtain p where p: "p \<in> set dangerous_patterns" "sublist p (lower c)"
    by (auto simp: dangerous_patterns_def)
  have "command_rule payload (PStr name) = Inr True"
    by (rule command_rule_pattern [OF assms(2) assms(3) assms(4) p])
  then show ?thesis
    using assms(1) by (simp add: evaluate_def ebind_def)
qed

theorem evaluate_dangerous_pattern_deny_witness:
  "evaluate False ''tool''
     [(''name'', PStr ''run_command''),
      (''arguments'', PDict [(''command'', PStr ''ls > /dev/null'')])] = Inr DENY"
proof -
  have "sublist ''/dev/null'' (lower ''ls > /dev/null'')"
    by code_simp
  then show ?thesis
    using evaluate_dangerous_pattern_deny
      [of "[(''name'', PStr ''run_command''),
            (''arguments'', PDict [(''command'', PStr ''ls > /dev/null'')])]"
          "''run_command''" "[(''command'', PStr ''ls > /dev/null'')]"
          "''ls > /dev/null''" False]
    by simp
qed

section \<open>MCP client: state bookkeeping\<close>

lemma trace_simps [simp]:
  "context_buffer (trace env ev p s) = context_buffer s"
  "cache (trace env ev p s) = cache s"
  "failure_count (trace env ev p s) = failure_count s"
  "circuit_open_until (trace env ev p s) = circuit_open_until s"
  "cancelled (trace env ev p s) = cancelled s"
  "events (trace env ev p s) = events s"
  by (simp_all add: trace_def time_time_def split: prod.splits)

lemma add_to_context_simps [simp]:
  "cache (add_to_context env item s) = cache s"
  "failure_count (add_to_context env item s) = failure_count s"
  "circuit_open_until (add_to_context env item s) = circuit_open_until s"
  "cancelled (add_to_context env item s) = cancelled s"
  "events (add_to_context env item s) = events s"
  by (simp_all add: add_to_context_def Let_def)

lemma set_cache_simps [simp]:
  "cache (set_cache env key v s) = (cache s)(key \<mapsto> v)"
  "failure_count (set_cache env key v s) = failure_count s"
  "circuit_open_until (set_cache env key v s) = circuit_open_until s"
  "cancelled (set_cache env key v s) = cancelled s"
  "events (set_cache env key v s) = events s"
  by (simp_all add: set_cache_def ENABLE_CACHE_def)

lemma record_success_simps [simp]:
  "cache (record_success key s) = cache s"
  "failure_count (record_success key s) = (failure_count s)(key \<mapsto> 0)"
  "circuit_open_until (record_success key s) = (circuit_open_until s)(key := None)"
  "cancelled (record_success key s) = cancelled s"
  "events (record_success key s) = events s"
  by (simp_all add: record_success_def)

lemma record_failure_simps [simp]:
  "cache (record_failure env key s) = cache s"
  "cancelled (record_failure env key s) = cancelled s"
  "events (record_failure env key s) = events s"
  "failure_count (record_failure env key s) = (failure_count s)(key \<mapsto> failures s key + 1)"
  by (simp_all add: record_failure_def failures_def Let_def time_time_def split: prod.splits)

lemma record_failure_opens:
  "failures s key + 1 \<ge> FAILURE_THRESHOLD \<Longrightarrow> circuit_open_until (record_failure env key s) key \<noteq> None"
  by (simp add: record_failure_def failures_def Let_def time_time_def split: prod.splits)

lemma send_simps [simp]:
  "fst (send env rq s) = transport env (length (events s)) rq"
  "cache (snd (send env rq s)) = cache s"
  "failure_count (snd (send env rq s)) = failure_count s"
  "circuit_open_until (snd (send env rq s)) = circuit_open_until s"
  "cancelled (snd (send env rq s)) = cancelled s"
  "events (snd (send env rq s)) = events s @ [Transport rq]"
  by (simp_all add: send_def)

lemma failures_simps [simp]:
  "failures (trace env ev p s) key = failures s key"
  "failures (snd (send env rq s)) key = failures s key"
  "failures (record_failure env key s) key = failures s key + 1"
  by (simp_all add: failures_def)

lemma call_tool_loop_all_fail:
  assumes fail: "\<forall>n. \<exists>e. transport env n (CallTool name args) = Inl e \<and> is_Exception e
                       \<and> exn_cls e \<noteq> PermissionError"
    and "k \<le> MAX_RETRIES"
  shows "\<exists>msg s'. call_tool_loop env name args key [k ..< MAX_RETRIES + 1] s
                    = (Inl (Exn ToolExecutionError msg), s')
           \<and> failures s' key = failures s key + int (MAX_RETRIES + 1 - k)
           \<and> events s' = events s @ replicate (MAX_RETRIES + 1 - k) (Transport (CallTool name args))
           \<and> (failures s' key \<ge> FAILURE_THRESHOLD \<longrightarrow> circuit_open_until s' key \<noteq> None)"
  using assms(2)
proof (induction "MAX_RETRIES - k" arbitrary: k s)
  case 0
  then have k: "k = MAX_RETRIES" by simp
  let ?s1 = "trace env ''call_tool'' (PDict [(''name'', name), (''arguments'', args)]) s"
  obtain e where e: "transport env (length (events ?s1)) (CallTool name args) = Inl e"
      "is_Exception e" "exn_cls e \<noteq> PermissionError"
    using fail by blast
  obtain r s2 where snd: "send env (CallTool name args) ?s1 = (r, s2)" by (cases "send env (CallTool name args) ?s1")
  have r: "r = Inl e" using snd e(1) send_simps(1)[of env "CallTool name args" ?s1] by simp
  have s2: "s2 = snd (send env (CallTool name args) ?s1)" using snd by simp
  show ?case
    using e(2,3) record_failure_opens[of "trace env ''tool_error'' (PStr (exn_msg e)) s2" key env]
    by (simp add: k upt_conv_Cons snd r Let_def) (simp add: s2 replicate_append_same)
next
  case (Suc n)
  then have k: "k < MAX_RETRIES" and n: "n = MAX_RETRIES - Suc k" and k': "Suc k \<le> MAX_RETRIES" by simp_all
  let ?s1 = "trace env ''call_tool'' (PDict [(''name'', name), (''arguments'', args)]) s"
  obtain e where e: "transport env (length (events ?s1)) (CallTool name args) = Inl e"
      "is_Exception e" "exn_cls e \<noteq> PermissionError"
    using fail by blast
  obtain r s2 where snd: "send env (CallTool name args) ?s1 = (r, s2)" by (cases "send env (CallTool name args) ?s1")
  have r: "r = Inl e" using snd e(1) send_simps(1)[of env "CallTool name args" ?s1] by simp
  have s2: "s2 = snd (send env (CallTool name args) ?s1)" using snd by simp
  let ?s3 = "record_failure env key (trace env ''tool_error'' (PStr (exn_msg e)) s2)"
  from Suc.hyps(1)[OF n k', of ?s3] obtain msg s' where
    IH: "call_tool_loop env name args key [Suc k ..< MAX_RETRIES + 1] ?s3 = (Inl (Exn ToolExecutionError msg), s')"
      "failures s' key = failures ?s3 key + int (MAX_RETRIES + 1 - Suc k)"
      "events s' = events ?s3 @ replicate (MAX_RETRIES + 1 - Suc k) (Transport (CallTool name args))"
      "failures s' key \<ge> FAILURE_THRESHOLD \<longrightarrow> circuit_open_until s' key \<noteq> None"
    by blast
  have up: "[k ..< MAX_RETRIES + 1] = k # [Suc k ..< MAX_RETRIES + 1]"
    using k by (simp add: upt_conv_Cons)
  have rep: "MAX_RETRIES + 1 - k = Suc (MAX_RETRIES + 1 - Suc k)" using k by simp
  show ?case
    unfolding up
    using e(2,3) k IH
    by (simp add: snd r Let_def) (simp add: s2 Suc_diff_le)
qed


lemma time_time_simps [simp]:
  "fst (time_time env s) = clock env (clock_reads s)"
  "cache (snd (time_time env s)) = cache s"
  "failure_count (snd (time_time env s)) = failure_count s"
  "circuit_open_until (snd (time_time env s)) = circuit_open_until s"
  "cancelled (snd (time_time env s)) = cancelled s"
  "events (snd (time_time env s)) = events s"
  "failures (snd (time_time env s)) key = failures s key"
  by (simp_all add: time_time_def failures_def)

lemma read_resource_loop_all_fail:
  assumes fail: "\<forall>n. \<exists>e. transport env n (ReadResource uri) = Inl e \<and> is_Exception e
                       \<and> exn_cls e \<noteq> PermissionError \<and> exn_cls e \<noteq> TimeoutError"
    and intime: "\<forall>n. \<not> clock env n - start > RESOURCE_TIMEOUT_SECONDS"
    and "k \<le> MAX_RETRIES"
  shows "\<exists>msg s'. read_resource_loop env uri key start [k ..< MAX_RETRIES + 1] s
                    = (Inl (Exn ResourceReadError msg), s')
           \<and> failures s' key = failures s key + int (MAX_RETRIES + 1 - k)
           \<and> events s' = events s @ replicate (MAX_RETRIES + 1 - k) (Transport (ReadResource uri))
           \<and> (failures s' key \<ge> FAILURE_THRESHOLD \<longrightarrow> circuit_open_until s' key \<noteq> None)"
  using assms(3)
proof (induction "MAX_RETRIES - k" arbitrary: k s)
  case 0
  then have k: "k = MAX_RETRIES" by simp
  obtain t s1 where tt: "time_time env s = (t, s1)" by (cases "time_time env s")
  have t: "\<not> t - start > RESOURCE_TIMEOUT_SECONDS"
    using intime tt time_time_simps(1)[of env s] by simp
  have s1: "s1 = snd (time_time env s)" using tt by simp
  let ?s1 = "trace env ''read_resource'' (PStr uri) s1"
  obtain e where e: "transport env (length (events ?s1)) (ReadResource uri) = Inl e"
      "is_Exception e" "exn_cls e \<noteq> PermissionError" "exn_cls e \<noteq> TimeoutError"
    using fail by blast
  obtain r s2 where snd: "send env (ReadResource uri) ?s1 = (r, s2)"
    by (cases "send env (ReadResource uri) ?s1")
  have r: "r = Inl e" using snd e(1) send_simps(1)[of env "ReadResource uri" ?s1] by simp
  have s2: "s2 = snd (send env (ReadResource uri) ?s1)" using snd by simp
  show ?case
    using e(2,3,4) t record_failure_opens[of "trace env ''resource_error'' (PStr (exn_msg e)) s2" key env]
    by (simp add: k upt_conv_Cons tt snd r Let_def) (simp add: s2 s1)
next
  case (Suc n)
  then have k: "k < MAX_RETRIES" and n: "n = MAX_RETRIES - Suc k" and k': "Suc k \<le> MAX_RETRIES"
    by simp_all
  obtain t s1 where tt: "time_time env s = (t, s1)" by (cases "time_time env s")
  have t: "\<not> t - start > RESOURCE_TIMEOUT_SECONDS"
    using intime tt time_time_simps(1)[of env s] by simp
  have s1: "s1 = snd (time_time env s)" using tt by simp
  let ?s1 = "trace env ''read_resource'' (PStr uri) s1"
  obtain e where e: "transport env (length (events ?s1)) (ReadResource uri) = Inl e"
      "is_Exception e" "exn_cls e \<noteq> PermissionError" "exn_cls e \<noteq> TimeoutError"
    using fail by blast
  obtain r s2 where snd: "send env (ReadResource uri) ?s1 = (r, s2)"
    by (cases "send env (ReadResource uri) ?s1")
  have r: "r = Inl e" using snd e(1) send_simps(1)[of env "ReadResource uri" ?s1] by simp
  have s2: "s2 = snd (send env (ReadResource uri) ?s1)" using snd by simp
  let ?s3 = "record_failure env key (trace env ''resource_error'' (PStr (exn_msg e)) s2)"
  from Suc.hyps(1)[OF n k', of ?s3] obtain msg s' where
    IH: "read_resource_loop env uri key start [Suc k ..< MAX_RETRIES + 1] ?s3
           = (Inl (Exn ResourceReadError msg), s')"
      "failures s' key = failures ?s3 key + int (MAX_RETRIES + 1 - Suc k)"
      "events s' = events ?s3 @ replicate (MAX_RETRIES + 1 - Suc k) (Transport (ReadResource uri))"
      "failures s' key \<ge> FAILURE_THRESHOLD \<longrightarrow> circuit_open_until s' key \<noteq> None"
    by blast
  have up: "[k ..< MAX_RETRIES + 1] = k # [Suc k ..< MAX_RETRIES + 1]"
    using k by (simp add: upt_conv_Cons)
  show ?case
    unfolding up
    using e(2,3,4) t k IH
    by (simp add: tt snd r Let_def) (simp add: s2 s1 Suc_diff_le)
qed

lemma check_circuit_closed:
  "circuit_open_until s key = None \<Longrightarrow> check_circuit env key s = (Inr (), s)"
  by (simp add: check_circuit_def)

lemma get_cached_miss:
  "cache s key = None \<Longrightarrow> get_cached env key s = (PNone, s)"
  by (simp add: get_cached_def dom_def)

lemma get_cached_hit:
  "cache s key = Some v \<Longrightarrow> get_cached env key s = (v, trace env ''cache_hit'' (PStr key) s)"
  by (simp add: get_cached_def dom_def ENABLE_CACHE_def)

lemma call_tool_all_fail:
  assumes "\<not> cancelled s"
    and "is_tool_allowed server name = Inr True"
    and "cache_key env ''tool'' server name args = Inr key"
    and "circuit_open_until s key = None" and "cache s key = None"
    and "\<forall>n. \<exists>e. transport env n (CallTool name args) = Inl e \<and> is_Exception e
                     \<and> exn_cls e \<noteq> PermissionError"
  shows "\<exists>msg s'. call_tool env server name args s = (Inl (Exn ToolExecutionError msg), s')
                 \<and> failures s' key = failures s key + int (MAX_RETRIES + 1)
                 \<and> events s' = events s @ replicate (MAX_RETRIES + 1) (Transport (CallTool name args))
                 \<and> (failures s' key \<ge> FAILURE_THRESHOLD \<longrightarrow> circuit_open_until s' key \<noteq> None)"
proof -
  have eq: "call_tool env server name args s
              = call_tool_loop env name args key [0 ..< MAX_RETRIES + 1] s"
    using assms(1-5)
    by (simp add: call_tool_def check_cancelled_def check_circuit_closed get_cached_miss)
  show ?thesis
    unfolding eq using call_tool_loop_all_fail[of env name args 0 key s] assms(6) by simp
qed

lemma read_resource_all_fail:
  assumes "\<not> cancelled s"
    and "is_resource_allowed server uri"
    and "cache_key env ''resource'' server (PStr uri) PNone = Inr key"
    and "circuit_open_until s key = None" and "cache s key = None"
    and "\<forall>n. \<exists>e. transport env n (ReadResource uri) = Inl e \<and> is_Exception e
                     \<and> exn_cls e \<noteq> PermissionError \<and> exn_cls e \<noteq> TimeoutError"
    and "\<forall>n. \<not> clock env n - clock env (clock_reads s) > RESOURCE_TIMEOUT_SECONDS"
  shows "\<exists>msg s'. read_resource env server uri s = (Inl (Exn ResourceReadError msg), s')
                 \<and> failures s' key = failures s key + int (MAX_RETRIES + 1)
                 \<and> events s' = events s @ replicate (MAX_RETRIES + 1) (Transport (ReadResource uri))
                 \<and> (failures s' key \<ge> FAILURE_THRESHOLD \<longrightarrow> circuit_open_until s' key \<noteq> None)"
proof -
  obtain start s3 where tt: "time_time env s = (start, s3)" by (cases "time_time env s")
  have s3: "s3 = snd (time_time env s)" and st: "start = clock env (clock_reads s)"
    using tt by (simp_all add: time_time_def)
  have eq: "read_resource env server uri s
              = read_resource_loop env uri key start [0 ..< MAX_RETRIES + 1] s3"
    using assms(1-5)
    by (simp add: read_resource_def check_cancelled_def check_circuit_closed get_cached_miss tt)
  have intime: "\<forall>n. \<not> clock env n - start > RESOURCE_TIMEOUT_SECONDS"
    using assms(7) st by simp
  show ?thesis
    unfolding eq
    using read_resource_loop_all_fail[of env uri start 0 key s3] assms(6) intime
    by (simp add: s3)
qed

text \<open>
  C8, as the code has it. The failure counter of a key is incremented by every failed
  transport attempt, inside the retry loop, not once per exhausted operation. When every
  attempt of one \<open>call_tool\<close> fails with a retryable error, the operation makes
  \<open>MAX_RETRIES + 1\<close> transport attempts, raises \<open>ToolExecutionError\<close>, and has added
  \<open>MAX_RETRIES + 1\<close> to the counter of its key, however long the attempts take. When
  every attempt of one \<open>read_resource\<close> fails with a retryable error and the deadline of
  the read is not passed, the operation makes \<open>MAX_RETRIES + 1\<close> transport attempts,
  raises \<open>ResourceReadError\<close>, and has added \<open>MAX_RETRIES + 1\<close> to the counter of its key.
  In both, the circuit of the key is open as soon as the counter has reached
  \<open>FAILURE_THRESHOLD\<close>. Each of the two halves stands on its own hypotheses.
\<close>

theorem failed_attempts_counted_each:
  "(\<not> cancelled s
      \<and> is_tool_allowed server name = Inr True
      \<and> cache_key env ''tool'' server name args = Inr tkey
      \<and> circuit_open_until s tkey = None \<and> cache s tkey = None
      \<and> (\<forall>n. \<exists>e. transport env n (CallTool name args) = Inl e \<and> is_Exception e
                     \<and> exn_cls e \<noteq> PermissionError)
     \<longrightarrow> (\<exists>msg s'. call_tool env server name args s = (Inl (Exn ToolExecutionError msg), s')
                 \<and> failures s' tkey = failures s tkey + int (MAX_RETRIES + 1)
                 \<and> events s' = events s @ replicate (MAX_RETRIES + 1) (Transport (CallTool name args))
                 \<and> (failures s' tkey \<ge> FAILURE_THRESHOLD \<longrightarrow> circuit_open_until s' tkey \<noteq> None)))
   \<and> (\<not> cancelled s
      \<and> is_resource_allowed server uri
      \<and> cache_key env ''resource'' server (PStr uri) PNone = Inr rkey
      \<and> circuit_open_until s rkey = None \<and> cache s rkey = None
      \<and> (\<forall>n. \<exists>e. transport env n (ReadResource uri) = Inl e \<and> is_Exception e
                     \<and> exn_cls e \<noteq> PermissionError \<and> exn_cls e \<noteq> TimeoutError)
      \<and> (\<forall>n. \<not> clock env n - clock env (clock_reads s) > RESOURCE_TIMEOUT_SECONDS)
     \<longrightarrow> (\<exists>msg s'. read_resource env server uri s = (Inl (Exn ResourceReadError msg), s')
                 \<and> failures s' rkey = failures s rkey + int (MAX_RETRIES + 1)
                 \<and> events s' = events s @ replicate (MAX_RETRIES + 1) (Transport (ReadResource uri))
                 \<and> (failures s' rkey \<ge> FAILURE_THRESHOLD \<longrightarrow> circuit_open_until s' rkey \<noteq> None)))"
proof (intro conjI impI)
  assume "\<not> cancelled s
      \<and> is_tool_allowed server name = Inr True
      \<and> cache_key env ''tool'' server name args = Inr tkey
      \<and> circuit_open_until s tkey = None \<and> cache s tkey = None
      \<and> (\<forall>n. \<exists>e. transport env n (CallTool name args) = Inl e \<and> is_Exception e
                     \<and> exn_cls e \<noteq> PermissionError)"
  then show "\<exists>msg s'. call_tool env server name args s = (Inl (Exn ToolExecutionError msg), s')
                 \<and> failures s' tkey = failures s tkey + int (MAX_RETRIES + 1)
                 \<and> events s' = events s @ replicate (MAX_RETRIES + 1) (Transport (CallTool name args))
                 \<and> (failures s' tkey \<ge> FAILURE_THRESHOLD \<longrightarrow> circuit_open_until s' tkey \<noteq> None)"
    by (elim conjE) (rule call_tool_all_fail, assumption+)
next
  assume "\<not> cancelled s
      \<and> is_resource_allowed server uri
      \<and> cache_key env ''resource'' server (PStr uri) PNone = Inr rkey
      \<and> circuit_open_until s rkey = None \<and> cache s rkey = None
      \<and> (\<forall>n. \<exists>e. transport env n (ReadResource uri) = Inl e \<and> is_Exception e
                     \<and> exn_cls e \<noteq> PermissionError \<and> exn_cls e \<noteq> TimeoutError)
      \<and> (\<forall>n. \<not> clock env n - clock env (clock_reads s) > RESOURCE_TIMEOUT_SECONDS)"
  then show "\<exists>msg s'. read_resource env server uri s = (Inl (Exn ResourceReadError msg), s')
                 \<and> failures s' rkey = failures s rkey + int (MAX_RETRIES + 1)
                 \<and> events s' = events s @ replicate (MAX_RETRIES + 1) (Transport (ReadResource uri))
                 \<and> (failures s' rkey \<ge> FAILURE_THRESHOLD \<longrightarrow> circuit_open_until s' rkey \<noteq> None)"
    by (elim conjE) (rule read_resource_all_fail, assumption+)
qed

lemma allowed_list_directory: "is_tool_allowed ''terminal'' (PStr ''list_directory'') = Inr True"
  by (simp add: is_tool_allowed_def ALLOWED_TOOLS_def)

lemma allowed_system_info: "is_resource_allowed ''terminal'' ''system://info''"
  by (simp add: is_resource_allowed_def ALLOWED_RESOURCES_def)

lemma init_state_simps [simp]:
  "\<not> cancelled init_state" "cache init_state k = None" "circuit_open_until init_state k = None"
  "failures init_state k = 0" "events init_state = []"
  by (simp_all add: init_state_def failures_def)

lemma failing_env_simps [simp]:
  "transport failing_env n rq = Inl (Exn OtherException ''connection lost'')"
  "clock failing_env n = 0"
  "json_dumps failing_env v = Inr (if v = PNone then ''null'' else ''{}'')"
  by (simp_all add: failing_env_def sample_dumps_def)

text \<open>
  The theorem on the failing server, from a fresh client: both operations end with the
  counter at \<open>MAX_RETRIES + 1\<close>.
\<close>

theorem failed_attempts_counted_each_witness:
  "(\<exists>msg s'. call_tool failing_env ''terminal'' (PStr ''list_directory'') (PDict []) init_state
                = (Inl (Exn ToolExecutionError msg), s')
            \<and> failures s' ''tool:terminal:list_directory:{}'' = 0 + int (MAX_RETRIES + 1)
            \<and> events s' = [] @ replicate (MAX_RETRIES + 1)
                                 (Transport (CallTool (PStr ''list_directory'') (PDict [])))
            \<and> (failures s' ''tool:terminal:list_directory:{}'' \<ge> FAILURE_THRESHOLD
                \<longrightarrow> circuit_open_until s' ''tool:terminal:list_directory:{}'' \<noteq> None))
   \<and> (\<exists>msg s'. read_resource failing_env ''terminal'' ''system://info'' init_state
                = (Inl (Exn ResourceReadError msg), s')
            \<and> failures s' ''resource:terminal:system://info:null'' = 0 + int (MAX_RETRIES + 1)
            \<and> events s' = [] @ replicate (MAX_RETRIES + 1) (Transport (ReadResource ''system://info''))
            \<and> (failures s' ''resource:terminal:system://info:null'' \<ge> FAILURE_THRESHOLD
                \<longrightarrow> circuit_open_until s' ''resource:terminal:system://info:null'' \<noteq> None))"
proof -
  have h1: "\<not> cancelled init_state" by simp
  have h3: "cache_key failing_env ''tool'' ''terminal'' (PStr ''list_directory'') (PDict [])
              = Inr ''tool:terminal:list_directory:{}''"
    by (simp add: cache_key_def ebind_def)
  have h4: "circuit_open_until init_state ''tool:terminal:list_directory:{}'' = None"
    and h5: "cache init_state ''tool:terminal:list_directory:{}'' = None"
    by simp_all
  have h6: "\<forall>n. \<exists>e. transport failing_env n (CallTool (PStr ''list_directory'') (PDict [])) = Inl e
              \<and> is_Exception e \<and> exn_cls e \<noteq> PermissionError"
    by (simp add: is_Exception_def)
  have h8: "cache_key failing_env ''resource'' ''terminal'' (PStr ''system://info'') PNone
              = Inr ''resource:terminal:system://info:null''"
    by (simp add: cache_key_def ebind_def)
  have h9: "circuit_open_until init_state ''resource:terminal:system://info:null'' = None"
    and h10: "cache init_state ''resource:terminal:system://info:null'' = None"
    by simp_all
  have h11: "\<forall>n. \<exists>e. transport failing_env n (ReadResource ''system://info'') = Inl e
              \<and> is_Exception e \<and> exn_cls e \<noteq> PermissionError \<and> exn_cls e \<noteq> TimeoutError"
    by (simp add: is_Exception_def)
  have h12: "\<forall>n. \<not> clock failing_env n - clock failing_env (clock_reads init_state)
                    > RESOURCE_TIMEOUT_SECONDS"
    by (simp add: RESOURCE_TIMEOUT_SECONDS_def)
  have f1: "failures init_state ''tool:terminal:list_directory:{}'' = 0"
    and f2: "failures init_state ''resource:terminal:system://info:null'' = 0"
    and e0: "events init_state = []" by simp_all
  note T = failed_attempts_counted_each
      [where s = init_state and env = failing_env and server = "''terminal''"
         and name = "PStr ''list_directory''" and args = "PDict []"
         and tkey = "''tool:terminal:list_directory:{}''"
         and uri = "''system://info''" and rkey = "''resource:terminal:system://info:null''"]
  have c1: "\<exists>msg s'. call_tool failing_env ''terminal'' (PStr ''list_directory'') (PDict []) init_state
                = (Inl (Exn ToolExecutionError msg), s')
            \<and> failures s' ''tool:terminal:list_directory:{}'' = 0 + int (MAX_RETRIES + 1)
            \<and> events s' = [] @ replicate (MAX_RETRIES + 1)
                                 (Transport (CallTool (PStr ''list_directory'') (PDict [])))
            \<and> (failures s' ''tool:terminal:list_directory:{}'' \<ge> FAILURE_THRESHOLD
                \<longrightarrow> circuit_open_until s' ''tool:terminal:list_directory:{}'' \<noteq> None)"
    using T [THEN conjunct1, THEN mp, OF conjI [OF h1 conjI [OF allowed_list_directory
              conjI [OF h3 conjI [OF h4 conjI [OF h5 h6]]]]]]
    unfolding f1 e0 .
  have c2: "\<exists>msg s'. read_resource failing_env ''terminal'' ''system://info'' init_state
                = (Inl (Exn ResourceReadError msg), s')
            \<and> failures s' ''resource:terminal:system://info:null'' = 0 + int (MAX_RETRIES + 1)
            \<and> events s' = [] @ replicate (MAX_RETRIES + 1) (Transport (ReadResource ''system://info''))
            \<and> (failures s' ''resource:terminal:system://info:null'' \<ge> FAILURE_THRESHOLD
                \<longrightarrow> circuit_open_until s' ''resource:terminal:system://info:null'' \<noteq> None)"
    using T [THEN conjunct2, THEN mp, OF conjI [OF h1 conjI [OF allowed_system_info
              conjI [OF h8 conjI [OF h9 conjI [OF h10 conjI [OF h11 h12]]]]]]]
    unfolding f2 e0 .
  show ?thesis using c1 c2 by (rule conjI)
qed

text \<open>
  C8 as stated fails: one failing \<open>call_tool\<close> on a fresh client leaves the counter of
  its key at 4, not at 1, and the circuit of the key already open.
\<close>

theorem one_failing_call_counts_four:
  "failures (snd (call_tool failing_env ''terminal'' (PStr ''list_directory'') (PDict []) init_state))
     ''tool:terminal:list_directory:{}'' = 4
   \<and> circuit_open_until
        (snd (call_tool failing_env ''terminal'' (PStr ''list_directory'') (PDict []) init_state))
        ''tool:terminal:list_directory:{}'' \<noteq> None"
proof -
  have h3: "cache_key failing_env ''tool'' ''terminal'' (PStr ''list_directory'') (PDict [])
              = Inr ''tool:terminal:list_directory:{}''"
    by (simp add: cache_key_def ebind_def)
  have h6: "\<forall>n. \<exists>e. transport failing_env n (CallTool (PStr ''list_directory'') (PDict [])) = Inl e
              \<and> is_Exception e \<and> exn_cls e \<noteq> PermissionError"
    by (simp add: is_Exception_def)
  obtain msg s' where r:
    "call_tool failing_env ''terminal'' (PStr ''list_directory'') (PDict []) init_state
       = (Inl (Exn ToolExecutionError msg), s')"
    "failures s' ''tool:terminal:list_directory:{}''
       = failures init_state ''tool:terminal:list_directory:{}'' + int (MAX_RETRIES + 1)"
    "failures s' ''tool:terminal:list_directory:{}'' \<ge> FAILURE_THRESHOLD
       \<longrightarrow> circuit_open_until s' ''tool:terminal:list_directory:{}'' \<noteq> None"
    using call_tool_all_fail [OF _ allowed_list_directory h3 _ _ h6, of init_state] by auto
  have four: "failures s' ''tool:terminal:list_directory:{}'' = 4"
    using r(2) by (simp add: MAX_RETRIES_def)
  then have "circuit_open_until s' ''tool:terminal:list_directory:{}'' \<noteq> None"
    using r(3) by (simp add: FAILURE_THRESHOLD_def)
  with four show ?thesis by (simp add: r(1))
qed


lemma demo_env_simps [simp]:
  "transport demo_env n rq = Inr (PStr ''ok'')"
  "clock demo_env n = 0"
  "json_dumps demo_env v = Inr (if v = PNone then ''null'' else ''{}'')"
  by (simp_all add: demo_env_def sample_dumps_def)

section \<open>MCP client: the resource gate\<close>

lemma read_resource_denied:
  assumes "\<not> cancelled s" and "uri \<notin> set (ALLOWED_RESOURCES server)" and "\<not> prefix ''file://'' uri"
  shows "read_resource env server uri s
           = (Inl (Exn PermissionError (''Resource not allowed: '' @ uri)), s)"
  using assms by (simp add: read_resource_def check_cancelled_def is_resource_allowed_def)

lemma read_resource_loop_first_ok:
  assumes "\<not> clock env (clock_reads s) - start > RESOURCE_TIMEOUT_SECONDS"
    and "transport env (length (events s)) (ReadResource uri) = Inr r"
  shows "\<exists>s'. read_resource_loop env uri key start (a # as) s = (Inr r, s')
              \<and> events s' = events s @ [Transport (ReadResource uri)]
              \<and> cache s' key = Some r \<and> circuit_open_until s' key = None"
proof -
  obtain t s1 where tt: "time_time env s = (t, s1)" by (cases "time_time env s")
  have t: "\<not> t - start > RESOURCE_TIMEOUT_SECONDS"
    using assms(1) tt time_time_simps(1)[of env s] by simp
  have s1: "s1 = snd (time_time env s)" using tt by simp
  let ?s1 = "trace env ''read_resource'' (PStr uri) s1"
  obtain x s2 where snd: "send env (ReadResource uri) ?s1 = (x, s2)"
    by (cases "send env (ReadResource uri) ?s1")
  have x: "x = Inr r"
    using snd assms(2) send_simps(1)[of env "ReadResource uri" ?s1] by (simp add: s1)
  have s2: "s2 = snd (send env (ReadResource uri) ?s1)" using snd by simp
  show ?thesis
    using t by (simp add: tt snd x) (simp add: s2 s1)
qed

lemma read_resource_file_uri:
  assumes "\<not> cancelled s"
    and "prefix ''file://'' uri"
    and "cache_key env ''resource'' server (PStr uri) PNone = Inr key"
    and "circuit_open_until s key = None" and "cache s key = None"
    and "\<not> clock env (Suc (clock_reads s)) - clock env (clock_reads s) > RESOURCE_TIMEOUT_SECONDS"
    and "transport env (length (events s)) (ReadResource uri) = Inr r"
  shows "fst (read_resource env server uri s) = Inr r
         \<and> events (snd (read_resource env server uri s)) = events s @ [Transport (ReadResource uri)]"
proof -
  obtain start s3 where tt: "time_time env s = (start, s3)" by (cases "time_time env s")
  have s3: "s3 = snd (time_time env s)" and st: "start = clock env (clock_reads s)"
    using tt by (simp_all add: time_time_def)
  have cr: "clock_reads s3 = Suc (clock_reads s)" using tt by (auto simp: time_time_def)
  have eq: "read_resource env server uri s
              = read_resource_loop env uri key start [0 ..< MAX_RETRIES + 1] s3"
    using assms(1-5)
    by (simp add: read_resource_def check_cancelled_def is_resource_allowed_def
        check_circuit_closed get_cached_miss tt)
  have up: "[0 ..< MAX_RETRIES + 1] = 0 # [1 ..< MAX_RETRIES + 1]"
    by (simp add: upt_conv_Cons)
  have pre1: "\<not> clock env (clock_reads s3) - start > RESOURCE_TIMEOUT_SECONDS"
    using assms(6) by (simp add: cr st)
  have pre2: "transport env (length (events s3)) (ReadResource uri) = Inr r"
    using assms(7) by (simp add: s3)
  from read_resource_loop_first_ok [OF pre1 pre2, of key 0 "[1 ..< MAX_RETRIES + 1]"]
  obtain s' where
    "read_resource_loop env uri key start (0 # [1 ..< MAX_RETRIES + 1]) s3 = (Inr r, s')"
    "events s' = events s3 @ [Transport (ReadResource uri)]"
    by blast
  then show ?thesis
    unfolding eq up by (simp add: s3)
qed

text \<open>
  C2, as the code has it. On a client that is not cancelled, \<open>read_resource\<close> raises
  \<open>PermissionError\<close>, without touching the transport or the state, for every URI that
  is neither in the allow-set of the server nor starts with \<open>file://\<close>, whatever the
  server answers and whatever the cache and the circuit breaker hold. A URI that starts
  with \<open>file://\<close> passes the gate whatever its path, listed or not: with a cold cache, a
  closed circuit and the deadline not passed, the request goes to the transport and its
  answer is returned. Each of the two halves stands on its own hypotheses.
\<close>

theorem read_resource_gate:
  "(\<not> cancelled s \<and> uri \<notin> set (ALLOWED_RESOURCES server) \<and> \<not> prefix ''file://'' uri
     \<longrightarrow> read_resource env server uri s
           = (Inl (Exn PermissionError (''Resource not allowed: '' @ uri)), s))
   \<and> (prefix ''file://'' furi \<longrightarrow> is_resource_allowed server furi)
   \<and> (\<not> cancelled s
      \<and> prefix ''file://'' furi
      \<and> cache_key env ''resource'' server (PStr furi) PNone = Inr key
      \<and> circuit_open_until s key = None \<and> cache s key = None
      \<and> \<not> clock env (Suc (clock_reads s)) - clock env (clock_reads s) > RESOURCE_TIMEOUT_SECONDS
      \<and> transport env (length (events s)) (ReadResource furi) = Inr r
     \<longrightarrow> fst (read_resource env server furi s) = Inr r
       \<and> events (snd (read_resource env server furi s))
           = events s @ [Transport (ReadResource furi)])"
proof -
  have a: "\<not> cancelled s \<and> uri \<notin> set (ALLOWED_RESOURCES server) \<and> \<not> prefix ''file://'' uri
     \<longrightarrow> read_resource env server uri s
           = (Inl (Exn PermissionError (''Resource not allowed: '' @ uri)), s)"
    by (intro impI, elim conjE, rule read_resource_denied)
  have b: "prefix ''file://'' furi \<longrightarrow> is_resource_allowed server furi"
    by (simp add: is_resource_allowed_def)
  have c: "\<not> cancelled s
      \<and> prefix ''file://'' furi
      \<and> cache_key env ''resource'' server (PStr furi) PNone = Inr key
      \<and> circuit_open_until s key = None \<and> cache s key = None
      \<and> \<not> clock env (Suc (clock_reads s)) - clock env (clock_reads s) > RESOURCE_TIMEOUT_SECONDS
      \<and> transport env (length (events s)) (ReadResource furi) = Inr r
     \<longrightarrow> fst (read_resource env server furi s) = Inr r
       \<and> events (snd (read_resource env server furi s))
           = events s @ [Transport (ReadResource furi)]"
    by (intro impI, elim conjE, rule read_resource_file_uri)
  from a b c show ?thesis by (intro conjI)
qed

lemma key_file_passwd:
  "cache_key demo_env ''resource'' ''terminal'' (PStr ''file:///etc/passwd'') PNone
     = Inr ''resource:terminal:file:///etc/passwd:null''"
  by (simp add: cache_key_def ebind_def)

text \<open>
  The theorem on a fresh client: \<open>secret://keys\<close> is refused, \<open>file:///etc/passwd\<close>
  passes the gate and is read.
\<close>

theorem read_resource_gate_witness:
  "read_resource demo_env ''terminal'' ''secret://keys'' init_state
     = (Inl (Exn PermissionError (''Resource not allowed: '' @ ''secret://keys'')), init_state)
   \<and> is_resource_allowed ''terminal'' ''file:///etc/passwd''
   \<and> fst (read_resource demo_env ''terminal'' ''file:///etc/passwd'' init_state) = Inr (PStr ''ok'')
   \<and> events (snd (read_resource demo_env ''terminal'' ''file:///etc/passwd'' init_state))
       = events init_state @ [Transport (ReadResource ''file:///etc/passwd'')]"
proof -
  have h1: "\<not> cancelled init_state" by simp
  have h2: "''secret://keys'' \<notin> set (ALLOWED_RESOURCES ''terminal'')"
    by (simp add: ALLOWED_RESOURCES_def)
  have h3: "\<not> prefix ''file://'' ''secret://keys''" by simp
  have h4: "prefix ''file://'' ''file:///etc/passwd''" by simp
  have h6: "circuit_open_until init_state ''resource:terminal:file:///etc/passwd:null'' = None"
    and h7: "cache init_state ''resource:terminal:file:///etc/passwd:null'' = None" by simp_all
  have h8: "\<not> clock demo_env (Suc (clock_reads init_state)) - clock demo_env (clock_reads init_state)
               > RESOURCE_TIMEOUT_SECONDS"
    by (simp add: RESOURCE_TIMEOUT_SECONDS_def)
  have h9: "transport demo_env (length (events init_state)) (ReadResource ''file:///etc/passwd'')
              = Inr (PStr ''ok'')" by simp
  note T = read_resource_gate
      [where s = init_state and env = demo_env and server = "''terminal''"
         and uri = "''secret://keys''" and furi = "''file:///etc/passwd''"
         and key = "''resource:terminal:file:///etc/passwd:null''" and r = "PStr ''ok''"]
  have c1: "read_resource demo_env ''terminal'' ''secret://keys'' init_state
     = (Inl (Exn PermissionError (''Resource not allowed: '' @ ''secret://keys'')), init_state)"
    using T [THEN conjunct1, THEN mp, OF conjI [OF h1 conjI [OF h2 h3]]] .
  have c2: "is_resource_allowed ''terminal'' ''file:///etc/passwd''"
    using T [THEN conjunct2, THEN conjunct1, THEN mp, OF h4] .
  have c3: "fst (read_resource demo_env ''terminal'' ''file:///etc/passwd'' init_state) = Inr (PStr ''ok'')
   \<and> events (snd (read_resource demo_env ''terminal'' ''file:///etc/passwd'' init_state))
       = events init_state @ [Transport (ReadResource ''file:///etc/passwd'')]"
    using T [THEN conjunct2, THEN conjunct2, THEN mp, OF conjI [OF h1 conjI [OF h4
               conjI [OF key_file_passwd conjI [OF h6 conjI [OF h7 conjI [OF h8 h9]]]]]]] .
  show ?thesis using c1 c2 c3 by (intro conjI) simp_all
qed

text \<open>
  C2 as stated fails: \<open>file:///etc/passwd\<close> is not in the allow-set of \<open>terminal\<close>, no
  pattern is configured for it, and the read succeeds.
\<close>

theorem file_uri_passes_gate:
  "''file:///etc/passwd'' \<notin> set (ALLOWED_RESOURCES ''terminal'')
   \<and> fst (read_resource demo_env ''terminal'' ''file:///etc/passwd'' init_state) = Inr (PStr ''ok'')"
proof -
  have h8: "\<not> clock demo_env (Suc (clock_reads init_state)) - clock demo_env (clock_reads init_state)
               > RESOURCE_TIMEOUT_SECONDS"
    by (simp add: RESOURCE_TIMEOUT_SECONDS_def)
  have "fst (read_resource demo_env ''terminal'' ''file:///etc/passwd'' init_state) = Inr (PStr ''ok'')"
    using read_resource_file_uri [OF _ _ key_file_passwd _ _ h8, of "PStr ''ok''"] by simp
  then show ?thesis by (simp add: ALLOWED_RESOURCES_def)
qed

section \<open>MCP client: the cache\<close>

lemma send_result:
  assumes "send env rq s = (x, s2)"
  shows "x = transport env (length (events s)) rq"
    and "cache s2 = cache s" and "failure_count s2 = failure_count s"
    and "circuit_open_until s2 = circuit_open_until s" and "cancelled s2 = cancelled s"
    and "events s2 = events s @ [Transport rq]"
  using assms by (auto simp: send_def)

lemma call_tool_loop_success:
  "call_tool_loop env name args key as s = (Inr r, s') \<Longrightarrow> truthy r \<Longrightarrow>
     cache s' key = Some r \<and> circuit_open_until s' key = None \<and> cancelled s' = cancelled s"
proof (induction as arbitrary: s)
  case Nil
  then show ?case by simp
next
  case (Cons a as)
  let ?s1 = "trace env ''call_tool'' (PDict [(''name'', name), (''arguments'', args)]) s"
  obtain x s2 where snd: "send env (CallTool name args) ?s1 = (x, s2)"
    by (cases "send env (CallTool name args) ?s1")
  note s2 = send_result(2-5) [OF snd]
  show ?case
  proof (cases x)
    case (Inr res)
    with Cons.prems(1) snd have "r = res"
      and "s' = add_to_context env
             (PDict [(''type'', PStr ''tool''), (''name'', name), (''result'', res)])
             (set_cache env key res (record_success key s2))"
      by auto
    then show ?thesis by (simp add: s2)
  next
    case (Inl e)
    let ?s3 = "record_failure env key (trace env ''tool_error'' (PStr (exn_msg e)) s2)"
    from Cons.prems(1) snd Inl
    have "call_tool_loop env name args key as ?s3 = (Inr r, s')"
      by (simp add: Let_def split: if_splits)
    from Cons.IH [OF this Cons.prems(2)] show ?thesis by (simp add: s2)
  qed
qed

lemma call_tool_hit:
  assumes "\<not> cancelled s" and "is_tool_allowed server name = Inr True"
    and "cache_key env ''tool'' server name args = Inr key"
    and "circuit_open_until s key = None" and "cache s key = Some r" and "truthy r"
  shows "call_tool env server name args s = (Inr r, trace env ''cache_hit'' (PStr key) s)"
  using assms
  by (simp add: call_tool_def check_cancelled_def check_circuit_closed get_cached_hit)

lemma call_tool_Inr_pre:
  assumes "call_tool env server name args s = (Inr r, s1)"
  shows "\<not> cancelled s" and "is_tool_allowed server name = Inr True"
proof -
  show nc: "\<not> cancelled s"
    using assms by (cases "cancelled s") (simp_all add: call_tool_def check_cancelled_def)
  show "is_tool_allowed server name = Inr True"
  proof (cases "is_tool_allowed server name")
    case (Inl e)
    with assms nc show ?thesis by (simp add: call_tool_def check_cancelled_def)
  next
    case (Inr b)
    with assms nc show ?thesis
      by (cases b) (simp_all add: call_tool_def check_cancelled_def)
  qed
qed

lemma check_circuit_facts:
  assumes "check_circuit env key s = (x, s')"
  shows "cache s' = cache s" and "circuit_open_until s' = circuit_open_until s"
    and "cancelled s' = cancelled s" and "events s' = events s"
    and "clock_reads s \<le> clock_reads s'"
    and "x = Inr () \<longleftrightarrow> \<not> (\<exists>u. circuit_open_until s key = Some u \<and> u \<noteq> 0
                                  \<and> clock env (clock_reads s) < u)"
  using assms
  by (auto simp: check_circuit_def time_time_def split: option.splits if_splits)

lemma get_cached_facts:
  assumes "get_cached env key s = (c, s')"
  shows "cache s' = cache s" and "circuit_open_until s' = circuit_open_until s"
    and "cancelled s' = cancelled s" and "events s' = events s"
    and "clock_reads s \<le> clock_reads s'"
    and "truthy c \<Longrightarrow> cache s key = Some c"
  using assms
  by (auto simp: get_cached_def trace_def time_time_def split: if_splits)

lemma call_tool_Inr_key:
  assumes "call_tool env server name args s = (Inr r, s1)"
  shows "\<exists>key. cache_key env ''tool'' server name args = Inr key"
proof (cases "cache_key env ''tool'' server name args")
  case (Inl e)
  with assms call_tool_Inr_pre [OF assms] show ?thesis
    by (simp add: call_tool_def check_cancelled_def)
next
  case (Inr key)
  then show ?thesis by blast
qed

text \<open>
  After a call that returned \<open>r\<close>: the cache holds \<open>r\<close> under the key, and the circuit
  entry of the key is gone (the call went to the transport) or is the one the call
  itself has just passed (the call was served from the cache).
\<close>

lemma call_tool_first_success:
  assumes first: "call_tool env server name args s = (Inr r, s1)" and tr: "truthy r"
    and key: "cache_key env ''tool'' server name args = Inr key"
  shows "cache s1 key = Some r" and "\<not> cancelled s1"
    and "circuit_open_until s1 key = None
         \<or> (circuit_open_until s1 key = circuit_open_until s key
            \<and> clock_reads s \<le> clock_reads s1
            \<and> \<not> (\<exists>u. circuit_open_until s key = Some u \<and> u \<noteq> 0
                       \<and> clock env (clock_reads s) < u))"
proof -
  note nc = call_tool_Inr_pre(1) [OF first] and al = call_tool_Inr_pre(2) [OF first]
  obtain x sa where cc: "check_circuit env key s = (x, sa)" by (cases "check_circuit env key s")
  note sa = check_circuit_facts [OF cc]
  have x: "x = Inr ()"
  proof (cases x)
    case (Inl e)
    with first nc al key cc show ?thesis by (simp add: call_tool_def check_cancelled_def)
  next
    case (Inr u)
    then show ?thesis by simp
  qed
  obtain c s0 where gc: "get_cached env key sa = (c, s0)" by (cases "get_cached env key sa")
  note s0 = get_cached_facts [OF gc]
  have unfold: "call_tool env server name args s
          = (if truthy c then (Inr c, s0)
             else call_tool_loop env name args key [0 ..< MAX_RETRIES + 1] s0)"
    using nc al key cc x by (simp add: call_tool_def check_cancelled_def gc)
  have all: "cache s1 key = Some r \<and> \<not> cancelled s1
     \<and> (circuit_open_until s1 key = None
         \<or> (circuit_open_until s1 key = circuit_open_until s key
            \<and> clock_reads s \<le> clock_reads s1
            \<and> \<not> (\<exists>u. circuit_open_until s key = Some u \<and> u \<noteq> 0
                       \<and> clock env (clock_reads s) < u)))"
  proof (cases "truthy c")
    case True
    then have eq: "r = c" "s1 = s0" using first unfolding unfold by simp_all
    have pass: "\<not> (\<exists>u. circuit_open_until s key = Some u \<and> u \<noteq> 0
                       \<and> clock env (clock_reads s) < u)"
      using sa(6) x by simp
    have "cache s0 key = Some c" using s0(6) [OF True] s0(1) by simp
    moreover have "\<not> cancelled s0" using s0(3) sa(3) nc by simp
    moreover have "circuit_open_until s0 key = circuit_open_until s key"
      using s0(2) sa(2) by simp
    moreover have "clock_reads s \<le> clock_reads s0" using s0(5) sa(5) by simp
    ultimately show ?thesis using pass unfolding eq by blast
  next
    case False
    then have "call_tool_loop env name args key [0 ..< MAX_RETRIES + 1] s0 = (Inr r, s1)"
      using first unfolding unfold by simp
    from call_tool_loop_success [OF this tr] s0(3) sa(3) nc show ?thesis by simp
  qed
  show "cache s1 key = Some r" using all by blast
  show "\<not> cancelled s1" using all by blast
  show "circuit_open_until s1 key = None
         \<or> (circuit_open_until s1 key = circuit_open_until s key
            \<and> clock_reads s \<le> clock_reads s1
            \<and> \<not> (\<exists>u. circuit_open_until s key = Some u \<and> u \<noteq> 0
                       \<and> clock env (clock_reads s) < u))" using all by blast
qed

lemma call_tool_refetch:
  assumes "\<not> cancelled s" and "is_tool_allowed server name = Inr True"
    and "cache_key env ''tool'' server name args = Inr key"
    and "circuit_open_until s key = None"
    and "case cache s key of None \<Rightarrow> True | Some v \<Rightarrow> \<not> truthy v"
    and "transport env (length (events s)) (CallTool name args) = Inr r"
  shows "\<exists>s'. call_tool env server name args s = (Inr r, s')
              \<and> events s' = events s @ [Transport (CallTool name args)]
              \<and> cache s' key = Some r \<and> circuit_open_until s' key = None \<and> \<not> cancelled s'"
proof -
  obtain c s0 where gc: "get_cached env key s = (c, s0)" by (cases "get_cached env key s")
  have c: "\<not> truthy c" and ev: "events s0 = events s" and nc: "\<not> cancelled s0"
    using gc assms(1,5)
    by (auto simp: get_cached_def ENABLE_CACHE_def dom_def split: if_splits option.splits)
  have eq: "call_tool env server name args s
              = call_tool_loop env name args key [0 ..< MAX_RETRIES + 1] s0"
    using assms(1-4) c by (simp add: call_tool_def check_cancelled_def check_circuit_closed gc)
  have up: "[0 ..< MAX_RETRIES + 1] = 0 # [1 ..< MAX_RETRIES + 1]"
    by (simp add: upt_conv_Cons)
  let ?s1 = "trace env ''call_tool'' (PDict [(''name'', name), (''arguments'', args)]) s0"
  obtain x s2 where snd: "send env (CallTool name args) ?s1 = (x, s2)"
    by (cases "send env (CallTool name args) ?s1")
  note s2 = send_result [OF snd]
  have x: "x = Inr r" using s2(1) assms(6) by (simp add: ev)
  have "call_tool_loop env name args key (0 # [1 ..< MAX_RETRIES + 1]) s0
          = (Inr r, add_to_context env
               (PDict [(''type'', PStr ''tool''), (''name'', name), (''result'', r)])
               (set_cache env key r (record_success key s2)))"
    using snd x by simp
  then show ?thesis
    unfolding eq up using nc by (simp add: s2 ev)
qed


lemma object_env_simps [simp]:
  "transport object_env n rq = Inr listing"
  "clock object_env n = real n"
  "json_dumps object_env v = sorted_dumps v"
  by (simp_all add: object_env_def)

lemma key_path_pattern:
  "cache_key object_env ''tool'' ''terminal'' (PStr ''list_directory'')
     (PDict [(''path'', PStr ''.''), (''pattern'', PStr ''*'')])
     = Inr (''tool:terminal:list_directory:'' @ path_pattern_json)"
  by (simp add: cache_key_def ebind_def sorted_dumps_def)

lemma key_pattern_path:
  "cache_key object_env ''tool'' ''terminal'' (PStr ''list_directory'')
     (PDict [(''pattern'', PStr ''*''), (''path'', PStr ''.'')])
     = Inr (''tool:terminal:list_directory:'' @ path_pattern_json)"
  by (simp add: cache_key_def ebind_def sorted_dumps_def)


section \<open>Planner: execution order and validation\<close>

lemma validate_execution_order_loop_sound:
  "validate_execution_order_loop plan order completed \<Longrightarrow> i < length order \<Longrightarrow>
     \<exists>t. get_task plan (order ! i) = Some t
           \<and> set (dependencies t) \<subseteq> completed \<union> set (take i order)"
proof (induction order arbitrary: completed i)
  case Nil
  then show ?case by simp
next
  case (Cons tid rest)
  from Cons.prems(1) obtain t where t: "get_task plan tid = Some t"
    "set (dependencies t) \<subseteq> completed"
    "validate_execution_order_loop plan rest (insert tid completed)"
    by (auto split: option.splits if_splits)
  show ?case
  proof (cases i)
    case 0
    with t show ?thesis by simp
  next
    case (Suc j)
    with Cons.prems(2) have "j < length rest" by simp
    from Cons.IH [OF t(3) this] Suc show ?thesis by auto
  qed
qed

lemma validated_order_respects_dependencies:
  assumes "validate_with_tools limit valid_tools plan = Inr plan'"
    and "validation_errors plan' = []"
    and "i < length (execution_order plan')"
  shows "\<exists>t. get_task plan' (execution_order plan' ! i) = Some t
           \<and> set (dependencies t) \<subseteq> set (take i (execution_order plan'))"
proof -
  from assms(1) obtain cyc where
    p': "plan' = plan\<lparr>validation_errors := validation_errors plan'\<rparr>"
    and ok: "validation_errors plan' = [] \<longrightarrow> validate_execution_order plan"
    by (auto simp: validate_with_tools_def ebind_def Let_def split: sum.splits if_splits)
  have eo: "execution_order plan' = execution_order plan" and gt: "get_task plan' = get_task plan"
    by (subst p', simp add: get_task_def fun_eq_iff)+
  from ok assms(2) have "validate_execution_order_loop plan (execution_order plan) {}"
    by (simp add: validate_execution_order_def)
  from validate_execution_order_loop_sound [OF this, of i] assms(3)
  show ?thesis by (simp add: eo gt)
qed

lemma dup_plan_computed:
  "compute_execution_order
      \<lparr>goal = ''show the readme'', subtasks = dup_plan_subtasks, execution_order = [],
       validation_errors = []\<rparr> = dup_plan"
  by (simp add: compute_execution_order_def dup_plan_subtasks_def in_degree_init_def Let_def
      dup_plan_def)

lemma dup_plan_fields:
  "subtasks dup_plan = dup_plan_subtasks" "execution_order dup_plan = [''task_1'']"
  "dup_plan\<lparr>validation_errors := []\<rparr> = dup_plan"
  by (simp_all add: dup_plan_def)

lemma dup_plan_get_task:
  "get_task dup_plan ''task_1''
     = Some \<lparr>task_id = ''task_1'', description = ''list'', tool_name = ''list_directory'',
             arguments = PDict [], dependencies = [], rollback_action = PNone\<rparr>"
  "get_task dup_plan ''task_2''
     = Some \<lparr>task_id = ''task_2'', description = ''read'', tool_name = ''read_file'',
             arguments = PDict [(''path'', PStr ''README.md'')],
             dependencies = [''task_1'', ''task_1''], rollback_action = PNone\<rparr>"
  by (simp_all add: get_task_def dup_plan_def dup_plan_subtasks_def)

lemma dup_plan_no_cycle: "has_circular_dependencies (Suc (Suc n)) dup_plan = Inr False"
  by (simp add: has_circular_dependencies_def dup_plan_fields dup_plan_subtasks_def
      dup_plan_get_task)

lemma dup_plan_order_valid: "validate_execution_order dup_plan"
  by (simp add: validate_execution_order_def dup_plan_fields dup_plan_get_task)

lemma dup_plan_validated:
  "validate_with_tools (Suc (Suc n)) {''list_directory'', ''read_file''} dup_plan = Inr dup_plan"
  by (simp add: validate_with_tools_def ebind_def dup_plan_no_cycle dup_plan_order_valid
      dup_plan_fields dup_plan_subtasks_def)

text \<open>
  C5 at a plan whose second subtask lists its prerequisite twice. The planner returns it
  with no validation error and with \<open>task_1\<close> alone in \<open>execution_order\<close>: the in-degree
  of \<open>task_2\<close> starts at 2 (the length of the list) and is decremented once when
  \<open>task_1\<close> is popped, so \<open>task_2\<close> is never queued, and none of the four checks looks
  for a subtask that is missing from the order. So \<open>task_1\<close> is a dependency of
  \<open>task_2\<close>, and \<open>task_2\<close> has no position in \<open>execution_order\<close> at all.
\<close>

theorem duplicate_dependency_drops_task:
  "execution_order (decompose_task_plan 1000 {''list_directory'', ''read_file''} ''show the readme''
                      dup_plan_subtasks) = [''task_1'']
   \<and> validation_errors (decompose_task_plan 1000 {''list_directory'', ''read_file''}
                          ''show the readme'' dup_plan_subtasks) = []
   \<and> ''task_1'' \<in> set (dependencies (dup_plan_subtasks ! 1))
   \<and> task_id (dup_plan_subtasks ! 1) \<notin>
        set (execution_order (decompose_task_plan 1000 {''list_directory'', ''read_file''}
                                ''show the readme'' dup_plan_subtasks))"
proof -
  have lim: "(1000::nat) = Suc (Suc 998)" by simp
  have "decompose_task_plan 1000 {''list_directory'', ''read_file''} ''show the readme''
          dup_plan_subtasks = dup_plan"
    unfolding lim decompose_task_plan_def dup_plan_computed dup_plan_validated by simp
  then show ?thesis by (simp add: dup_plan_def dup_plan_subtasks_def)
qed

section \<open>Executor: the retry loop\<close>

lemma client_step_refl [simp]: "client_step s s"
  by (simp add: client_step_def)

lemma client_step_trans: "client_step s s1 \<Longrightarrow> client_step s1 s2 \<Longrightarrow> client_step s s2"
  by (auto simp: client_step_def)

lemma client_step_same_events: "events s' = events s \<Longrightarrow> client_step s s'"
  by (simp add: client_step_def)

lemma client_step_send: "send env rq s = (x, s') \<Longrightarrow> client_step s s'"
  by (auto simp: client_step_def send_def)

lemma record_failure_step: "client_step s (record_failure env key s)"
  by (rule client_step_same_events) simp

lemma check_circuit_events: "check_circuit env key s = (x, s') \<Longrightarrow> events s' = events s"
  by (auto simp: check_circuit_def time_time_def split: option.splits if_splits)

lemma get_cached_events: "get_cached env key s = (c, s') \<Longrightarrow> events s' = events s"
  by (auto simp: get_cached_def split: if_splits)

lemma call_tool_loop_step:
  "call_tool_loop env name args key as s = (x, s') \<Longrightarrow> client_step s s'"
proof (induction as arbitrary: s)
  case Nil
  then show ?case by simp
next
  case (Cons a as)
  let ?s1 = "trace env ''call_tool'' (PDict [(''name'', name), (''arguments'', args)]) s"
  obtain y s2 where snd: "send env (CallTool name args) ?s1 = (y, s2)"
    by (cases "send env (CallTool name args) ?s1")
  have st: "client_step s s2"
    using client_step_send [OF snd] by (simp add: client_step_def)
  show ?case
  proof (cases y)
    case (Inr res)
    with Cons.prems snd have "events s' = events s2" by auto
    with st show ?thesis by (simp add: client_step_def)
  next
    case (Inl e)
    let ?s3 = "record_failure env key (trace env ''tool_error'' (PStr (exn_msg e)) s2)"
    have e3: "events ?s3 = events s2" by simp
    consider "s' = s2" | "s' = ?s3" | "call_tool_loop env name args key as ?s3 = (x, s')"
      using Cons.prems snd Inl by (auto simp: Let_def split: if_splits)
    then show ?thesis
    proof cases
      case 1
      with st show ?thesis by simp
    next
      case 2
      with st e3 show ?thesis by (simp add: client_step_def)
    next
      case 3
      from Cons.IH [OF 3] have "client_step ?s3 s'" .
      with st e3 show ?thesis by (auto simp: client_step_def)
    qed
  qed
qed

lemma call_tool_step:
  "call_tool env server name args s = (x, s') \<Longrightarrow> client_step s s'"
proof -
  assume a: "call_tool env server name args s = (x, s')"
  show ?thesis
  proof (cases "check_cancelled s")
    case (Inl e)
    with a show ?thesis by (simp add: call_tool_def)
  next
    case c: (Inr u)
    show ?thesis
    proof (cases "is_tool_allowed server name")
      case (Inl e)
      with a c show ?thesis by (simp add: call_tool_def)
    next
      case al: (Inr allowed)
      show ?thesis
      proof (cases allowed)
        case False
        with a c al show ?thesis by (simp add: call_tool_def)
      next
        case True
        show ?thesis
        proof (cases "cache_key env ''tool'' server name args")
          case (Inl e)
          with a c al True show ?thesis by (simp add: call_tool_def)
        next
          case k: (Inr key)
          obtain cc s1 where cc: "check_circuit env key s = (cc, s1)"
            by (cases "check_circuit env key s")
          note e1 = check_circuit_events [OF cc]
          show ?thesis
          proof (cases cc)
            case (Inl e)
            with a c al True k cc have "s' = s1" by (simp add: call_tool_def)
            with e1 show ?thesis by (simp add: client_step_def)
          next
            case (Inr u2)
            obtain cached s2 where gc: "get_cached env key s1 = (cached, s2)"
              by (cases "get_cached env key s1")
            note e2 = get_cached_events [OF gc]
            show ?thesis
            proof (cases "truthy cached")
              case t: True
              with a c al True k cc Inr gc have "s' = s2" by (simp add: call_tool_def)
              with e1 e2 show ?thesis by (simp add: client_step_def)
            next
              case f: False
              with a c al True k cc Inr gc
              have "call_tool_loop env name args key [0 ..< MAX_RETRIES + 1] s2 = (x, s')"
                by (simp add: call_tool_def)
              from call_tool_loop_step [OF this] e1 e2 show ?thesis
                by (simp add: client_step_def)
            qed
          qed
        qed
      qed
    qed
  qed
qed

lemma client_step_dispatches: "client_step s s' \<Longrightarrow> dispatches s' = dispatches s"
proof -
  assume "client_step s s'"
  then obtain es where es: "events s' = events s @ es" "list_all is_outside es"
    by (auto simp: client_step_def)
  have "filter is_dispatch es = []"
    using es(2) by (induction es) (auto elim: is_outside.elims)
  with es(1) show ?thesis by (simp add: dispatches_def)
qed

lemma observe_facts:
  assumes "observe env ex tool args res s = (obs, ex1, s2)"
  shows "o_result obs = res" and "observations_history ex1 = observations_history ex @ [obs]"
    and "events s2 = events s"
  using assms by (auto simp: observe_def time_time_def Let_def)

lemma reflect_facts:
  assumes "reflect env ex obs g s = (x, ex2, s3)"
  shows "observations_history ex2 = observations_history ex" and "dispatches s3 = dispatches s"
  using assms
  by (auto simp: reflect_def Let_def dispatches_def split: sum.splits option.splits if_splits)

lemma dispatches_simps [simp]:
  "dispatches (s\<lparr>events := events s @ [Dispatch tool args]\<rparr>) = Suc (dispatches s)"
  "dispatches (s\<lparr>events := events s @ [Printed msg]\<rparr>) = dispatches s"
  by (simp_all add: dispatches_def)

lemma act_loop_bounded:
  "act_loop env server g mr attempt tool args result ex s = (res, ex', s') \<Longrightarrow>
     \<exists>new. observations_history ex' = observations_history ex @ new
       \<and> dispatches s \<le> dispatches s'
       \<and> length new \<le> dispatches s' - dispatches s
       \<and> int (dispatches s' - dispatches s) \<le> max 0 (mr - attempt)
       \<and> (attempt < mr \<and> int (length new) = mr - attempt \<longrightarrow> res = Inr (o_result (last new)))"
proof (induction "nat (mr - attempt)" arbitrary: attempt tool args result ex s)
  case 0
  then have ge: "\<not> attempt < mr" by simp
  with "0.prems" have "ex' = ex" "s' = s"
    by (auto simp: act_loop.simps [of env server g mr attempt tool args result ex s]
             split: option.splits)
  with ge show ?case by simp
next
  case (Suc n)
  then have lt: "attempt < mr" and n: "n = nat (mr - (attempt + 1))" by simp_all
  let ?s0 = "s\<lparr>events := events s @ [Dispatch tool args]\<rparr>"
  obtain called s1 where ct: "call_tool env server tool args ?s0 = (called, s1)"
    by (cases "call_tool env server tool args ?s0")
  have d1: "dispatches s1 = Suc (dispatches s)"
    using client_step_dispatches [OF call_tool_step [OF ct]] by simp
  define R where "R = (case called of
                      Inr raw_result \<Rightarrow> Inr (extract_tool_result env raw_result)
                    | Inl e \<Rightarrow>
                        if is_Exception e
                        then Inr (PDict [(''success'', PBool False), (''error'', PStr (exn_msg e))])
                        else Inl e)"
  note unf = act_loop.simps [of env server g mr attempt tool args result ex s]
  show ?case
  proof (cases R)
    case (Inl e)
    with Suc.prems lt ct have "ex' = ex" "s' = s1"
      unfolding unf R_def by (simp_all split: sum.splits if_splits)
    with d1 lt show ?thesis by simp
  next
    case (Inr r)
    obtain obs ex1 s2 where ob: "observe env ex tool args r s1 = (obs, ex1, s2)"
      by (cases "observe env ex tool args r s1") auto
    note of = observe_facts [OF ob]
    have d2: "dispatches s2 = Suc (dispatches s)"
      using d1 of(3) by (simp add: dispatches_def)
    have step: "act_loop env server g mr attempt tool args result ex s =
       (if truthy (o_success obs) then (Inr r, ex1, s2)
        else if attempt + 1 \<ge> mr
        then (Inr r, ex1, s2\<lparr>events := events s2 @ [Printed ''Max retries reached'']\<rparr>)
        else
          (case reflect env ex1 obs g s2 of
             (Inl e, ex2, s3) \<Rightarrow> (Inl e, ex2, s3)
           | (Inr reflection, ex2, s3) \<Rightarrow>
               if \<not> truthy (suggested_actions reflection)
               then (Inr r, ex2,
                     s3\<lparr>events := events s3 @ [Printed ''No alternative actions suggested'']\<rparr>)
               else
                 (case ebind (py_first (suggested_actions reflection)) (\<lambda>suggested.
                         ebind (py_get suggested ''tool'' tool) (\<lambda>tool'.
                         ebind (py_get suggested ''arguments'' (PDict [])) (\<lambda>args'.
                           Inr (tool', args')))) of
                    Inl e \<Rightarrow> (Inl e, ex2, s3)
                  | Inr (tool', args') \<Rightarrow>
                      act_loop env server g mr (attempt + 1) tool' args' (Some r) ex2 s3)))"
      unfolding unf using lt Inr by (simp add: ct R_def [symmetric] ob)
    have one: "\<And>sx. dispatches sx = Suc (dispatches s) \<Longrightarrow>
        \<exists>new. observations_history ex1 = observations_history ex @ new
       \<and> dispatches s \<le> dispatches sx
       \<and> length new \<le> dispatches sx - dispatches s
       \<and> int (dispatches sx - dispatches s) \<le> max 0 (mr - attempt)
       \<and> (attempt < mr \<and> int (length new) = mr - attempt \<longrightarrow> Inr r = Inr (o_result (last new)))"
      using of(1,2) lt by (intro exI [of _ "[obs]"]) simp
    show ?thesis
    proof (cases "truthy (o_success obs)")
      case True
      with Suc.prems step have "res = Inr r" "ex' = ex1" "s' = s2" by simp_all
      with one [OF d2] show ?thesis by simp
    next
      case ns: False
      show ?thesis
      proof (cases "attempt + 1 \<ge> mr")
        case True
        with ns Suc.prems step have "res = Inr r" "ex' = ex1"
          "s' = s2\<lparr>events := events s2 @ [Printed ''Max retries reached'']\<rparr>" by simp_all
        with one [of s'] d2 show ?thesis by simp
      next
        case more: False
        obtain x ex2 s3 where rf: "reflect env ex1 obs g s2 = (x, ex2, s3)"
          by (cases "reflect env ex1 obs g s2") auto
        note rfacts = reflect_facts [OF rf]
        have d3: "dispatches s3 = Suc (dispatches s)" using rfacts(2) d2 by simp
        have h3: "observations_history ex2 = observations_history ex @ [obs]"
          using rfacts(1) of(2) by simp
        have exc: "\<And>e sx. dispatches sx = Suc (dispatches s) \<Longrightarrow>
          \<exists>new. observations_history ex2 = observations_history ex @ new
           \<and> dispatches s \<le> dispatches sx
           \<and> length new \<le> dispatches sx - dispatches s
           \<and> int (dispatches sx - dispatches s) \<le> max 0 (mr - attempt)
           \<and> (attempt < mr \<and> int (length new) = mr - attempt \<longrightarrow> e = Inr (o_result (last new)))"
          using h3 lt more by (intro exI [of _ "[obs]"]) simp
        show ?thesis
        proof (cases x)
          case (Inl e)
          with ns more Suc.prems step rf have "ex' = ex2" "s' = s3" by simp_all
          with exc [OF d3] show ?thesis by simp
        next
          case rl: (Inr reflection)
          show ?thesis
          proof (cases "truthy (suggested_actions reflection)")
            case False
            with ns more Suc.prems step rf rl have "ex' = ex2"
              "s' = s3\<lparr>events := events s3 @ [Printed ''No alternative actions suggested'']\<rparr>"
              by simp_all
            with exc [of s'] d3 show ?thesis by simp
          next
            case sug: True
            define S where "S = ebind (py_first (suggested_actions reflection)) (\<lambda>suggested.
                         ebind (py_get suggested ''tool'' tool) (\<lambda>tool'.
                         ebind (py_get suggested ''arguments'' (PDict [])) (\<lambda>args'.
                           Inr (tool', args'))))"
            show ?thesis
            proof (cases S)
              case (Inl e)
              with ns more sug Suc.prems step rf rl have "ex' = ex2" "s' = s3"
                by (simp_all add: S_def [symmetric])
              with exc [OF d3] show ?thesis by simp
            next
              case (Inr ta)
              obtain tool' args' where ta: "ta = (tool', args')" by (cases ta)
              with Inr ns more sug Suc.prems step rf rl
              have rec: "act_loop env server g mr (attempt + 1) tool' args' (Some r) ex2 s3
                           = (res, ex', s')"
                by (simp add: S_def [symmetric])
              from Suc.hyps(1) [OF n rec] obtain new where new:
                "observations_history ex' = observations_history ex2 @ new"
                "dispatches s3 \<le> dispatches s'"
                "length new \<le> dispatches s' - dispatches s3"
                "int (dispatches s' - dispatches s3) \<le> max 0 (mr - (attempt + 1))"
                "attempt + 1 < mr \<and> int (length new) = mr - (attempt + 1)
                   \<longrightarrow> res = Inr (o_result (last new))"
                by blast
              have nn: "int (length new) = mr - (attempt + 1) \<Longrightarrow> new \<noteq> []"
                using more by auto
              show ?thesis
                using new h3 d3 more lt nn
                by (intro exI [of _ "obs # new"]) auto
            qed
          qed
        qed
      qed
    qed
  qed
qed

text \<open>
  C9. \<open>act_with_retry\<close> is a total function (the loop is defined with its termination
  proof), whatever the tool, the arguments, the goal, the transport, the LLM and the
  client state are. A call adds at most \<open>max_retries\<close> \<open>Dispatch\<close> events to the log
  and at most as many observations as dispatches; and when \<open>max_retries\<close> attempts have
  each been observed, which exhausts the bound, it returns the result of the last
  observation as it is.
\<close>

theorem act_with_retry_bounded:
  "case act_with_retry env ex server tool args g s of
     (res, ex', s') \<Rightarrow>
       \<exists>new. observations_history ex' = observations_history ex @ new
         \<and> dispatches s \<le> dispatches s'
         \<and> length new \<le> dispatches s' - dispatches s
         \<and> int (dispatches s' - dispatches s) \<le> max 0 (max_retries ex)
         \<and> (0 < max_retries ex \<and> int (length new) = max_retries ex
              \<longrightarrow> res = Inr (o_result (last new)))"
proof -
  obtain res ex' s' where r: "act_with_retry env ex server tool args g s = (res, ex', s')"
    by (cases "act_with_retry env ex server tool args g s") auto
  from r have "act_loop env server g (max_retries ex) 0 tool args None ex s = (res, ex', s')"
    by (simp add: act_with_retry_def)
  from act_loop_bounded [OF this] show ?thesis by (simp add: r)
qed

lemma enoent_env_simps [simp]:
  "transport enoent_env n rq = Inr enoent"
  "clock enoent_env n = 0"
  "json_dumps enoent_env v = Inr (if v = PNone then ''null'' else ''{}'')"
  by (simp_all add: enoent_env_def sample_dumps_def)

lemma one_shot_run:
  "\<exists>obs ex' s'. act_with_retry enoent_env one_shot ''terminal'' (PStr ''read_file'') (PDict [])
                   ''show cfg.ini'' init_state = (Inr enoent, ex', s')
               \<and> observations_history ex' = [obs]"
proof -
  let ?s0 = "init_state\<lparr>events := [Dispatch (PStr ''read_file'') (PDict [])]\<rparr>"
  have al: "is_tool_allowed ''terminal'' (PStr ''read_file'') = Inr True"
    by (simp add: is_tool_allowed_def ALLOWED_TOOLS_def)
  have key: "cache_key enoent_env ''tool'' ''terminal'' (PStr ''read_file'') (PDict [])
               = Inr ''tool:terminal:read_file:{}''"
    by (simp add: cache_key_def ebind_def)
  have pre: "\<not> cancelled ?s0" "circuit_open_until ?s0 ''tool:terminal:read_file:{}'' = None"
    "case cache ?s0 ''tool:terminal:read_file:{}'' of None \<Rightarrow> True | Some v \<Rightarrow> \<not> truthy v"
    "transport enoent_env (length (events ?s0)) (CallTool (PStr ''read_file'') (PDict [])) = Inr enoent"
    by (simp_all add: init_state_def)
  from call_tool_refetch [OF pre(1) al key pre(2) pre(3) pre(4)]
  obtain s1 where ct:
    "call_tool enoent_env ''terminal'' (PStr ''read_file'') (PDict []) ?s0 = (Inr enoent, s1)"
    by blast
  have ex: "extract_tool_result enoent_env enoent = enoent"
    by (simp add: extract_tool_result_def enoent_def)
  obtain obs ex1 s2 where ob:
    "observe enoent_env one_shot (PStr ''read_file'') (PDict []) enoent s1 = (obs, ex1, s2)"
    by (cases "observe enoent_env one_shot (PStr ''read_file'') (PDict []) enoent s1") auto
  have os: "\<not> truthy (o_success obs)" and oh: "observations_history ex1 = [obs]"
    using ob by (auto simp: observe_def time_time_def Let_def enoent_def one_shot_def)
  have mr: "max_retries one_shot = 1" by (simp add: one_shot_def)
  show ?thesis
    unfolding act_with_retry_def mr
      act_loop.simps [of enoent_env "''terminal''" "''show cfg.ini''" 1 0 "PStr ''read_file''"
                         "PDict []" None one_shot init_state]
    using os oh by (simp add: ct ex ob)
qed

text \<open>
  The theorem with \<open>max_retries = 1\<close> and a server that answers \<open>read_file\<close> with a
  failure: one dispatch, one observation, and its result is what is returned.
\<close>

theorem act_with_retry_bounded_witness:
  "0 < max_retries one_shot
   \<and> int (length (observations_history (fst (snd
        (act_with_retry enoent_env one_shot ''terminal'' (PStr ''read_file'') (PDict [])
           ''show cfg.ini'' init_state))))) = max_retries one_shot
   \<and> fst (act_with_retry enoent_env one_shot ''terminal'' (PStr ''read_file'') (PDict [])
           ''show cfg.ini'' init_state)
       = Inr (o_result (last (observations_history (fst (snd
           (act_with_retry enoent_env one_shot ''terminal'' (PStr ''read_file'') (PDict [])
              ''show cfg.ini'' init_state))))))"
proof -
  from one_shot_run obtain obs ex' s' where r:
    "act_with_retry enoent_env one_shot ''terminal'' (PStr ''read_file'') (PDict [])
       ''show cfg.ini'' init_state = (Inr enoent, ex', s')"
    "observations_history ex' = [obs]"
    by blast
  have h: "observations_history one_shot = []" "max_retries one_shot = 1"
    by (simp_all add: one_shot_def)
  show ?thesis
    using act_with_retry_bounded [where env = enoent_env and ex = one_shot
        and server = "''terminal''" and tool = "PStr ''read_file''" and args = "PDict []"
        and g = "''show cfg.ini''" and s = init_state]
    by (auto simp: r h)
qed

section \<open>Agent: the policy gate of a subtask\<close>

lemma evaluate_rm_rf:
  "evaluate dry ''tool''
     [(''name'', PStr ''run_command''), (''arguments'', PDict [(''command'', PStr ''rm -rf /'')])]
   = Inr DENY"
proof -
  have h: "sublist ''rm -rf'' (lower ''rm -rf /'')" by code_simp
  have "command_rule
     [(''name'', PStr ''run_command''), (''arguments'', PDict [(''command'', PStr ''rm -rf /'')])]
     (PStr ''run_command'') = Inr True"
    by (rule command_rule_pattern [where args = "[(''command'', PStr ''rm -rf /'')]"
          and c = "''rm -rf /''" and p = "''rm -rf''"])
       (simp_all add: dangerous_patterns_def h)
  then show ?thesis by (simp add: evaluate_def ebind_def)
qed

lemma evaluate_write_dry:
  "evaluate True ''tool''
     [(''name'', PStr ''write_file''),
      (''arguments'', PDict [(''path'', PStr ''note.txt''), (''content'', PStr ''hello'')])]
   = Inr DRY_RUN"
proof -
  have ns: "\<not> sublist ''..'' ''note.txt''" by code_simp
  show ?thesis
    by (simp add: evaluate_def ebind_def command_rule_def git_rule_def write_rule_def
        kill_rule_def mutating_tools_def ns)
qed

lemma gate_tool_deny:
  "evaluate dry ''tool'' [(''name'', PStr name), (''arguments'', args)] = Inr DENY \<Longrightarrow>
   gate_tool dry name args s
     = (Inl (Exn PermissionError (''Policy denied: '' @ name)),
        s\<lparr>events := events s @ [PolicyEval ''tool'' [(''name'', PStr name), (''arguments'', args)]]\<rparr>)"
  by (simp add: gate_tool_def)

lemma gate_tool_dry_run:
  "evaluate dry ''tool'' [(''name'', PStr name), (''arguments'', args)] = Inr DRY_RUN \<Longrightarrow>
   gate_tool dry name args s
     = (Inr False,
        s\<lparr>events := events s @ [PolicyEval ''tool'' [(''name'', PStr name), (''arguments'', args)]]\<rparr>)"
  by (simp add: gate_tool_def)

lemma gate_tool_allow:
  "evaluate dry ''tool'' [(''name'', PStr name), (''arguments'', args)] = Inr ALLOW \<Longrightarrow>
   gate_tool dry name args s
     = (Inr True,
        s\<lparr>events := events s @ [PolicyEval ''tool'' [(''name'', PStr name), (''arguments'', args)]]\<rparr>)"
  by (simp add: gate_tool_def)

lemma execute_task_dry_run:
  assumes "deps_complete task (execution_results r)"
    and "enhance_arguments_with_results env task (execution_results r) = Inr a"
    and "evaluate dry ''tool'' [(''name'', PStr (tool_name task)), (''arguments'', arguments task)]
           = Inr DRY_RUN"
  shows "execute_task env dry question task r s
           = (None, r,
              s\<lparr>events := events s
                     @ [PolicyEval ''tool''
                          [(''name'', PStr (tool_name task)), (''arguments'', arguments task)],
                        Printed (''Skipping '' @ task_id task @ '' - policy denied'')]\<rparr>)"
  using assms by (simp add: execute_task_def gate_tool_dry_run)

text \<open>
  C4, as the code has it. When the gate of a subtask whose dependencies are met decides
  dry-run, the agent evaluates the policy, prints the skip line and goes on to the next
  subtask: nothing is dispatched, nothing reaches the tool server, and no entry, neither
  a success nor a failure, is added to the execution results.
\<close>

theorem dry_run_skips_task:
  assumes "deps_complete task (execution_results r)"
    and "enhance_arguments_with_results env task (execution_results r) = Inr a"
    and "evaluate dry ''tool'' [(''name'', PStr (tool_name task)), (''arguments'', arguments task)]
           = Inr DRY_RUN"
  shows "execute_task env dry question task r s
           = (None, r,
              s\<lparr>events := events s
                     @ [PolicyEval ''tool''
                          [(''name'', PStr (tool_name task)), (''arguments'', arguments task)],
                        Printed (''Skipping '' @ task_id task @ '' - policy denied'')]\<rparr>)"
  by (rule execute_task_dry_run [OF assms])

lemma write_task_ready:
  "deps_complete write_task (execution_results (init_run ex))"
  "enhance_arguments_with_results env write_task (execution_results (init_run ex))
     = Inr (PDict [(''path'', PStr ''note.txt''), (''content'', PStr ''hello'')])"
  "tool_name write_task = ''write_file''"
  "arguments write_task = PDict [(''path'', PStr ''note.txt''), (''content'', PStr ''hello'')]"
  "task_id write_task = ''task_1''"
  by (simp_all add: deps_complete_def write_task_def init_run_def
      enhance_arguments_with_results_def)

text \<open>The theorem for a file write with the engine in dry-run mode.\<close>

theorem dry_run_skips_task_witness:
  "execute_task success_env True ''write a note'' write_task (init_run agent_executor) init_state
     = (None, init_run agent_executor,
        init_state\<lparr>events := events init_state
           @ [PolicyEval ''tool''
                [(''name'', PStr (tool_name write_task)), (''arguments'', arguments write_task)],
              Printed (''Skipping '' @ task_id write_task @ '' - policy denied'')]\<rparr>)"
proof -
  have ev: "evaluate True ''tool''
      [(''name'', PStr (tool_name write_task)), (''arguments'', arguments write_task)] = Inr DRY_RUN"
    by (simp add: write_task_ready evaluate_write_dry)
  show ?thesis
    by (rule dry_run_skips_task [OF write_task_ready(1) write_task_ready(2) ev])
qed

text \<open>
  C4 as stated fails: the policy decides dry-run for the file write, and the agent sees
  no outcome for it at all; the only trace of the subtask is the skip line.
\<close>

theorem dry_run_records_no_outcome:
  "evaluate True ''tool''
     [(''name'', PStr ''write_file''),
      (''arguments'', PDict [(''path'', PStr ''note.txt''), (''content'', PStr ''hello'')])]
     = Inr DRY_RUN
   \<and> execution_results (fst (snd (execute_task success_env True ''write a note'' write_task
                                     (init_run agent_executor) init_state))) = []
   \<and> events (snd (snd (execute_task success_env True ''write a note'' write_task
                          (init_run agent_executor) init_state)))
       = [PolicyEval ''tool''
            [(''name'', PStr ''write_file''),
             (''arguments'', PDict [(''path'', PStr ''note.txt''), (''content'', PStr ''hello'')])],
          Printed ''Skipping task_1 - policy denied'']"
proof -
  have ev: "evaluate True ''tool''
      [(''name'', PStr (tool_name write_task)), (''arguments'', arguments write_task)] = Inr DRY_RUN"
    by (simp add: write_task_ready evaluate_write_dry)
  show ?thesis
    unfolding execute_task_dry_run [OF write_task_ready(1) write_task_ready(2) ev]
    by (simp add: evaluate_write_dry write_task_ready) (simp add: init_run_def)
qed

lemma rm_task_ready:
  "deps_complete rm_task (execution_results (init_run ex))"
  "enhance_arguments_with_results env rm_task (execution_results (init_run ex))
     = Inr (PDict [(''command'', PStr ''rm -rf /'')])"
  "tool_name rm_task = ''run_command''"
  "arguments rm_task = PDict [(''command'', PStr ''rm -rf /'')]"
  by (simp_all add: deps_complete_def rm_task_def init_run_def
      enhance_arguments_with_results_def)

text \<open>
  C3 at the plan of scenario S2. The policy denies \<open>rm -rf /\<close>; \<open>_gate_tool\<close> raises
  \<open>PermissionError\<close>, nothing in the loop of \<open>answer\<close> catches it, and the run ends
  there: no skip line is printed for the denied subtask, and the listing that follows
  it in the plan is never reached. Nothing was sent to the tool server.
\<close>

theorem denied_task_aborts_plan:
  "execute_plan success_env False ''Delete everything: run rm -rf /'' rm_plan
     (init_run agent_executor) init_state
   = (Some (Exn PermissionError ''Policy denied: run_command''), init_run agent_executor,
      init_state\<lparr>events :=
        [PolicyEval ''tool''
           [(''name'', PStr ''run_command''),
            (''arguments'', PDict [(''command'', PStr ''rm -rf /'')])]]\<rparr>)"
proof -
  have "execute_task success_env False ''Delete everything: run rm -rf /'' rm_task
          (init_run agent_executor) init_state
        = (Some (Exn PermissionError ''Policy denied: run_command''), init_run agent_executor,
           init_state\<lparr>events :=
             [PolicyEval ''tool''
                [(''name'', PStr ''run_command''),
                 (''arguments'', PDict [(''command'', PStr ''rm -rf /'')])]]\<rparr>)"
    by (simp add: execute_task_def rm_task_ready gate_tool_deny evaluate_rm_rf)
  then show ?thesis by (simp add: execute_plan_def rm_plan_def)
qed

section \<open>Agent: what a dispatch logs\<close>

lemma log_grows_refl [simp]: "log_grows s s"
  by (simp add: log_grows_def)

lemma log_grows_trans: "log_grows s s1 \<Longrightarrow> log_grows s1 s2 \<Longrightarrow> log_grows s s2"
  by (auto simp: log_grows_def)

lemma log_grows_same_events: "events s' = events s \<Longrightarrow> log_grows s s'"
  by (simp add: log_grows_def)

lemma log_grows_append: "events s' = events s @ [e] \<Longrightarrow> log_grows s s'"
  by (simp add: log_grows_def)

lemma client_step_grows: "client_step s s' \<Longrightarrow> log_grows s s'"
  by (auto simp: client_step_def log_grows_def)

lemma reflect_grows:
  "reflect env ex obs g s = (x, ex2, s3) \<Longrightarrow> log_grows s s3"
  by (auto simp: reflect_def Let_def log_grows_def split: sum.splits option.splits if_splits)

text \<open>
  An attempt of the executor starts with the dispatch of its tool and arguments;
  whatever the loop logs afterwards comes behind it.
\<close>

lemma act_loop_first_dispatch:
  "attempt < mr \<Longrightarrow>
   act_loop env server g mr attempt tool args result ex s = (res, ex', s') \<Longrightarrow>
   log_grows (s\<lparr>events := events s @ [Dispatch tool args]\<rparr>) s'"
proof (induction "nat (mr - attempt)" arbitrary: attempt tool args result ex s)
  case 0
  then show ?case by simp
next
  case (Suc n)
  note lt = Suc.prems(1)
  have n: "n = nat (mr - (attempt + 1))" using Suc.hyps(2) by simp
  let ?s0 = "s\<lparr>events := events s @ [Dispatch tool args]\<rparr>"
  obtain called s1 where ct: "call_tool env server tool args ?s0 = (called, s1)"
    by (cases "call_tool env server tool args ?s0")
  have u1: "log_grows ?s0 s1"
    using client_step_grows [OF call_tool_step [OF ct]] .
  define R where "R = (case called of
                      Inr raw_result \<Rightarrow> Inr (extract_tool_result env raw_result)
                    | Inl e \<Rightarrow>
                        if is_Exception e
                        then Inr (PDict [(''success'', PBool False), (''error'', PStr (exn_msg e))])
                        else Inl e)"
  note unf = act_loop.simps [of env server g mr attempt tool args result ex s]
  show ?case
  proof (cases R)
    case (Inl e)
    with Suc.prems(2) lt ct have "s' = s1"
      unfolding unf R_def by (simp_all split: sum.splits if_splits)
    with u1 show ?thesis by simp
  next
    case (Inr r)
    obtain obs ex1 s2 where ob: "observe env ex tool args r s1 = (obs, ex1, s2)"
      by (cases "observe env ex tool args r s1") auto
    have u2: "log_grows ?s0 s2"
      using log_grows_trans [OF u1 log_grows_same_events [OF observe_facts(3) [OF ob]]] .
    have pr: "\<And>sx msg. log_grows ?s0 sx \<Longrightarrow> log_grows ?s0 (sx\<lparr>events := events sx @ [Printed msg]\<rparr>)"
      by (erule log_grows_trans) (rule log_grows_append [of _ _ "Printed _"], simp)
    have step: "act_loop env server g mr attempt tool args result ex s =
       (if truthy (o_success obs) then (Inr r, ex1, s2)
        else if attempt + 1 \<ge> mr
        then (Inr r, ex1, s2\<lparr>events := events s2 @ [Printed ''Max retries reached'']\<rparr>)
        else
          (case reflect env ex1 obs g s2 of
             (Inl e, ex2, s3) \<Rightarrow> (Inl e, ex2, s3)
           | (Inr reflection, ex2, s3) \<Rightarrow>
               if \<not> truthy (suggested_actions reflection)
               then (Inr r, ex2,
                     s3\<lparr>events := events s3 @ [Printed ''No alternative actions suggested'']\<rparr>)
               else
                 (case ebind (py_first (suggested_actions reflection)) (\<lambda>suggested.
                         ebind (py_get suggested ''tool'' tool) (\<lambda>tool'.
                         ebind (py_get suggested ''arguments'' (PDict [])) (\<lambda>args'.
                           Inr (tool', args')))) of
                    Inl e \<Rightarrow> (Inl e, ex2, s3)
                  | Inr (tool', args') \<Rightarrow>
                      act_loop env server g mr (attempt + 1) tool' args' (Some r) ex2 s3)))"
      unfolding unf using lt Inr by (simp add: ct R_def [symmetric] ob)
    show ?thesis
    proof (cases "truthy (o_success obs) \<or> attempt + 1 \<ge> mr")
      case True
      with Suc.prems(2) step
      have "s' = s2 \<or> s' = s2\<lparr>events := events s2 @ [Printed ''Max retries reached'']\<rparr>"
        by (auto split: if_splits)
      with u2 pr [OF u2] show ?thesis by auto
    next
      case False
      then have lt': "attempt + 1 < mr" by simp
      obtain x ex2 s3 where rf: "reflect env ex1 obs g s2 = (x, ex2, s3)"
        by (cases "reflect env ex1 obs g s2") auto
      have u3: "log_grows ?s0 s3" using log_grows_trans [OF u2 reflect_grows [OF rf]] .
      define S where "S = (\<lambda>reflection. ebind (py_first (suggested_actions reflection)) (\<lambda>suggested.
                         ebind (py_get suggested ''tool'' tool) (\<lambda>tool'.
                         ebind (py_get suggested ''arguments'' (PDict [])) (\<lambda>args'.
                           Inr (tool', args')))))"
      consider "s' = s3"
        | "s' = s3\<lparr>events := events s3 @ [Printed ''No alternative actions suggested'']\<rparr>"
        | tool' args' r' where
            "act_loop env server g mr (attempt + 1) tool' args' (Some r') ex2 s3 = (res, ex', s')"
        using Suc.prems(2) False unfolding step
        by (auto simp: rf S_def [symmetric] split: sum.splits if_splits)
      then show ?thesis
      proof cases
        case 1
        with u3 show ?thesis by simp
      next
        case 2
        with pr [OF u3] show ?thesis by simp
      next
        case 3
        have "log_grows s3 (s3\<lparr>events := events s3 @ [Dispatch tool' args']\<rparr>)"
          by (rule log_grows_append [of _ _ "Dispatch tool' args'"]) simp
        from log_grows_trans [OF log_grows_trans [OF u3 this] Suc.hyps(1) [OF n lt' 3]]
        show ?thesis .
      qed
    qed
  qed
qed

lemma act_loop_grows:
  assumes "act_loop env server g mr attempt tool args result ex s = (res, ex', s')"
  shows "log_grows s s'"
proof (cases "attempt < mr")
  case True
  have "log_grows s (s\<lparr>events := events s @ [Dispatch tool args]\<rparr>)"
    by (rule log_grows_append [of _ _ "Dispatch tool args"]) simp
  from log_grows_trans [OF this act_loop_first_dispatch [OF True assms]] show ?thesis .
next
  case False
  with assms have "s' = s"
    by (auto simp: act_loop.simps [of env server g mr attempt tool args result ex s]
             split: option.splits)
  then show ?thesis by simp
qed

lemma act_with_retry_first_dispatch:
  assumes "0 < max_retries ex"
    and "act_with_retry env ex server tool args g s = (res, ex', s')"
  shows "\<exists>es. events s' = events s @ Dispatch tool args # es"
proof -
  have "log_grows (s\<lparr>events := events s @ [Dispatch tool args]\<rparr>) s'"
    using assms(2) unfolding act_with_retry_def by (rule act_loop_first_dispatch [OF assms(1)])
  then show ?thesis by (auto simp: log_grows_def)
qed

lemma act_with_retry_success:
  assumes "0 < max_retries ex"
    and "call_tool env server tool args (s\<lparr>events := events s @ [Dispatch tool args]\<rparr>)
           = (Inr raw, s1)"
    and "extract_tool_result env raw = PDict kvs"
    and "map_of kvs ''success'' = Some v" and "truthy v"
  shows "\<exists>ex' s2. act_with_retry env ex server tool args g s = (Inr (PDict kvs), ex', s2)
                  \<and> events s2 = events s1"
proof -
  obtain obs ex1 s2 where ob: "observe env ex tool args (PDict kvs) s1 = (obs, ex1, s2)"
    by (cases "observe env ex tool args (PDict kvs) s1") auto
  have su: "truthy (o_success obs)"
    using ob assms(4,5) by (auto simp: observe_def time_time_def Let_def)
  show ?thesis
    unfolding act_with_retry_def
      act_loop.simps [of env server g "max_retries ex" 0 tool args None ex s]
    using assms(1) su observe_facts(3) [OF ob] by (simp add: assms(2,3) ob)
qed

section \<open>Agent: the order of execution\<close>

lemma task_fields [simp]:
  "task_id reader_task = ''task_2''" "dependencies reader_task = [''task_1'']"
  "tool_name reader_task = ''read_file''" "arguments reader_task = PDict []"
  "task_id lister_task = ''task_1''" "dependencies lister_task = []"
  "tool_name lister_task = ''list_directory''" "arguments lister_task = PDict []"
  "rollback_action lister_task = PNone"
  by (simp_all add: reader_task_def lister_task_def)

lemma reversed_computed:
  "compute_execution_order
     \<lparr>goal = ''read after listing'', subtasks = [reader_task, lister_task],
      execution_order = [], validation_errors = []\<rparr> = reversed_ordered"
  by (simp add: compute_execution_order_def in_degree_init_def Let_def reversed_ordered_def)

lemma reversed_fields:
  "subtasks reversed_ordered = [reader_task, lister_task]"
  "execution_order reversed_ordered = [''task_1'', ''task_2'']"
  "validation_errors reversed_ordered = []"
  "reversed_ordered\<lparr>validation_errors := []\<rparr> = reversed_ordered"
  by (simp_all add: reversed_ordered_def)

lemma reversed_get_task:
  "get_task reversed_ordered ''task_1'' = Some lister_task"
  "get_task reversed_ordered ''task_2'' = Some reader_task"
  by (simp_all add: get_task_def reversed_fields)

lemma reversed_no_cycle: "has_circular_dependencies (Suc (Suc n)) reversed_ordered = Inr False"
  by (simp add: has_circular_dependencies_def reversed_fields reversed_get_task)

lemma reversed_order_valid: "validate_execution_order reversed_ordered"
  by (simp add: validate_execution_order_def reversed_fields reversed_get_task)

lemma reversed_validated:
  "validate_with_tools (Suc (Suc n)) {''list_directory'', ''read_file''} reversed_ordered
     = Inr reversed_ordered"
  by (simp add: validate_with_tools_def ebind_def reversed_no_cycle reversed_order_valid
      reversed_fields)

lemma reversed_plan_value: "reversed_plan = reversed_ordered"
proof -
  have lim: "(1000::nat) = Suc (Suc 998)" by simp
  show ?thesis
    unfolding reversed_plan_def lim decompose_task_plan_def reversed_computed reversed_validated
    by simp
qed

lemma execute_task_unmet:
  assumes "\<not> deps_complete task (execution_results r)"
  shows "execute_task env dry question task r s
           = (None, r,
              s\<lparr>events := events s
                     @ [Printed (''Skipping '' @ task_id task @ '' - dependencies not met'')]\<rparr>)"
  using assms by (simp add: execute_task_def)

lemma add_context_facts:
  assumes "add_context env content ty r s = (r', s')"
  shows "events s' = events s" and "execution_results r' = execution_results r"
  using assms by (auto simp: add_context_def time_time_def split: prod.splits)

lemma execute_task_dispatch_ok:
  assumes "deps_complete task (execution_results r)"
    and "enhance_arguments_with_results env task (execution_results r) = Inr a"
    and "evaluate dry ''tool'' [(''name'', PStr (tool_name task)), (''arguments'', arguments task)]
           = Inr ALLOW"
    and "0 < max_retries (self_correcting_agent r)"
    and "call_tool env ''terminal'' (PStr (tool_name task)) a
           (s\<lparr>events := events s
                  @ [PolicyEval ''tool''
                       [(''name'', PStr (tool_name task)), (''arguments'', arguments task)],
                     Dispatch (PStr (tool_name task)) a]\<rparr>) = (Inr raw, s1)"
    and "extract_tool_result env raw = PDict kvs"
    and "map_of kvs ''success'' = Some v" and "truthy v"
  shows "\<exists>r' s'. execute_task env dry question task r s = (None, r', s')
            \<and> events s' = events s1
            \<and> map r_task_id (execution_results r') = map r_task_id (execution_results r) @ [task_id task]"
proof -
  let ?pe = "PolicyEval ''tool'' [(''name'', PStr (tool_name task)), (''arguments'', arguments task)]"
  let ?sg = "s\<lparr>events := events s @ [?pe]\<rparr>"
  have ct: "call_tool env ''terminal'' (PStr (tool_name task)) a
              (?sg\<lparr>events := events ?sg @ [Dispatch (PStr (tool_name task)) a]\<rparr>) = (Inr raw, s1)"
    using assms(5) by simp
  from act_with_retry_success [OF assms(4) ct assms(6) assms(7) assms(8)]
  obtain ex' s2 where aw:
    "act_with_retry env (self_correcting_agent r) ''terminal'' (PStr (tool_name task)) a question ?sg
       = (Inr (PDict kvs), ex', s2)" "events s2 = events s1"
    by blast
  let ?r1 = "r\<lparr>execution_results := execution_results r
                 @ [\<lparr>r_task_id = task_id task, r_tool = tool_name task,
                     r_success = v, r_result = PDict kvs\<rparr>],
               rollback_stack :=
                 (if truthy (rollback_action task)
                  then rollback_stack r @ [(task_id task, rollback_action task)]
                  else rollback_stack r),
               self_correcting_agent := ex'\<rparr>"
  obtain r' s3 where ac: "add_context env (PDict kvs) ''tool_result'' ?r1 s2 = (r', s3)"
    by (cases "add_context env (PDict kvs) ''tool_result'' ?r1 s2")
  note af = add_context_facts [OF ac]
  have "execute_task env dry question task r s = (None, r', s3)"
    using assms(1,2,7) by (simp add: execute_task_def gate_tool_allow [OF assms(3)] aw(1) ac)
  with af aw(2) show ?thesis by simp
qed

lemma execute_task_results:
  assumes "execute_task env dry question task r s = (x, r', s')"
  shows "execution_results r' = execution_results r
       \<or> (deps_complete task (execution_results r)
          \<and> (\<exists>e. execution_results r' = execution_results r @ [e]
                 \<and> r_task_id e = task_id task \<and> r_tool e = tool_name task))"
proof (cases "deps_complete task (execution_results r)")
  case False
  with assms show ?thesis by (simp add: execute_task_def)
next
  case True
  show ?thesis
    using assms True
    by (auto simp: execute_task_def split: sum.splits prod.splits bool.splits
        dest!: add_context_facts(2))
qed

lemma execute_loop_results:
  "execute_loop env dry question ts r s = (x, r', s') \<Longrightarrow>
     \<exists>new ran. execution_results r' = execution_results r @ new
        \<and> subseq ran ts
        \<and> map r_task_id new = map task_id ran
        \<and> map r_tool new = map tool_name ran
        \<and> (\<forall>i < length ran. deps_complete (ran ! i) (execution_results r @ take i new))"
proof (induction ts arbitrary: r s)
  case Nil
  then show ?case by simp
next
  case (Cons t ts)
  obtain y ra sa where et: "execute_task env dry question t r s = (y, ra, sa)"
    by (cases "execute_task env dry question t r s")
  note step = execute_task_results [OF et]
  have tail: "\<exists>new ran. execution_results r' = execution_results ra @ new
        \<and> subseq ran ts
        \<and> map r_task_id new = map task_id ran
        \<and> map r_tool new = map tool_name ran
        \<and> (\<forall>i < length ran. deps_complete (ran ! i) (execution_results ra @ take i new))"
  proof (cases y)
    case None
    with Cons.prems et have "execute_loop env dry question ts ra sa = (x, r', s')" by simp
    from Cons.IH [OF this] show ?thesis .
  next
    case (Some e)
    with Cons.prems et have "r' = ra" by simp
    then have "execution_results r' = execution_results ra @ [] \<and> subseq [] ts
        \<and> map r_task_id [] = map task_id ([] :: SubTask list)
        \<and> map r_tool [] = map tool_name ([] :: SubTask list)
        \<and> (\<forall>i < length ([] :: SubTask list).
              deps_complete ([] ! i) (execution_results ra @ take i []))" by simp
    then show ?thesis by blast
  qed
  then obtain new ran where t:
    "execution_results r' = execution_results ra @ new" "subseq ran ts"
    "map r_task_id new = map task_id ran" "map r_tool new = map tool_name ran"
    "\<forall>i < length ran. deps_complete (ran ! i) (execution_results ra @ take i new)"
    by blast
  from step show ?case
  proof
    assume same: "execution_results ra = execution_results r"
    have "execution_results r' = execution_results r @ new \<and> subseq ran (t # ts)
        \<and> map r_task_id new = map task_id ran \<and> map r_tool new = map tool_name ran
        \<and> (\<forall>i < length ran. deps_complete (ran ! i) (execution_results r @ take i new))"
      using t same by auto
    then show ?thesis by blast
  next
    assume "deps_complete t (execution_results r)
          \<and> (\<exists>e. execution_results ra = execution_results r @ [e]
                 \<and> r_task_id e = task_id t \<and> r_tool e = tool_name t)"
    then obtain e where e: "deps_complete t (execution_results r)"
      "execution_results ra = execution_results r @ [e]"
      "r_task_id e = task_id t" "r_tool e = tool_name t" by blast
    have a: "execution_results r' = execution_results r @ (e # new)" using t(1) e(2) by simp
    have b: "subseq (t # ran) (t # ts)" using t(2) by simp
    have c: "map r_task_id (e # new) = map task_id (t # ran)" using t(3) e(3) by simp
    have d: "map r_tool (e # new) = map tool_name (t # ran)" using t(4) e(4) by simp
    have f: "\<forall>i < length (t # ran).
               deps_complete ((t # ran) ! i) (execution_results r @ take i (e # new))"
    proof (intro allI impI)
      fix i assume i: "i < length (t # ran)"
      show "deps_complete ((t # ran) ! i) (execution_results r @ take i (e # new))"
      proof (cases i)
        case 0
        then show ?thesis using e(1) by simp
      next
        case (Suc j)
        then have "j < length ran" using i by simp
        with t(5) have "deps_complete (ran ! j) (execution_results ra @ take j new)" by blast
        then show ?thesis using Suc e(2) by simp
      qed
    qed
    from a b c d f show ?thesis by blast
  qed
qed

lemma execute_loop_append:
  "execute_loop env dry question (pre @ rest) r s
     = (case execute_loop env dry question pre r s of
          (Some e, r', s') \<Rightarrow> (Some e, r', s')
        | (None, r', s') \<Rightarrow> execute_loop env dry question rest r' s')"
  by (induction pre arbitrary: r s) (auto split: prod.splits option.splits)

lemma not_deps_complete:
  assumes "dep \<in> set (dependencies task)" and "dep \<notin> r_task_id ` set results"
  shows "\<not> deps_complete task results"
  using assms by (auto simp: deps_complete_def list_all_iff list_ex_iff intro!: bexI [of _ dep])

lemma execute_loop_listed_later:
  assumes dep: "dep \<in> set (dependencies task)"
    and pre: "dep \<notin> task_id ` set pre"
    and before: "dep \<notin> r_task_id ` set (execution_results r)"
    and run: "execute_loop env dry question pre r s = (None, r1, s1)"
  shows "execute_loop env dry question (pre @ task # post) r s
           = execute_loop env dry question post r1
               (s1\<lparr>events := events s1
                      @ [Printed (''Skipping '' @ task_id task @ '' - dependencies not met'')]\<rparr>)"
proof -
  from execute_loop_results [OF run] obtain new ran where n:
    "execution_results r1 = execution_results r @ new" "subseq ran pre"
    "map r_task_id new = map task_id ran" by blast
  have "set ran \<subseteq> set pre" using list_emb_set [OF n(2)] by auto
  then have "task_id ` set ran \<subseteq> task_id ` set pre" by blast
  moreover have "r_task_id ` set new = task_id ` set ran"
    using n(3) by (metis set_map)
  ultimately have "dep \<notin> r_task_id ` set new" using pre by blast
  with before have "dep \<notin> r_task_id ` set (execution_results r1)" by (simp add: n(1) image_Un)
  from not_deps_complete [OF dep this]
  have "execute_task env dry question task r1 s1
           = (None, r1,
              s1\<lparr>events := events s1
                     @ [Printed (''Skipping '' @ task_id task @ '' - dependencies not met'')]\<rparr>)"
    by (rule execute_task_unmet)
  then show ?thesis by (simp add: execute_loop_append run)
qed

lemma evaluate_list_allow:
  "evaluate False ''tool'' [(''name'', PStr ''list_directory''), (''arguments'', PDict [])]
     = Inr ALLOW"
  by (simp add: evaluate_def ebind_def command_rule_def git_rule_def write_rule_def kill_rule_def
      read_rule_def)

lemma success_env_simps [simp]:
  "transport success_env n rq = Inr done_ok"
  "clock success_env n = 0"
  "json_dumps success_env v = Inr (if v = PNone then ''null'' else ''{}'')"
  by (simp_all add: success_env_def sample_dumps_def)

text \<open>The sample plan on the server that serves every call.\<close>

lemma reversed_plan_run:
  "\<exists>r' s'. execute_plan success_env False ''read after listing'' reversed_plan
               (init_run agent_executor) init_state = (None, r', s')
     \<and> map r_task_id (execution_results r') = [''task_1'']
     \<and> filter is_dispatch (events s') = [Dispatch (PStr ''list_directory'') (PDict [])]"
proof -
  let ?r0 = "init_run agent_executor"
  let ?s1 = "init_state\<lparr>events := [Printed ''Skipping task_2 - dependencies not met'']\<rparr>"
  let ?pe = "PolicyEval ''tool'' [(''name'', PStr (tool_name lister_task)),
                                   (''arguments'', arguments lister_task)]"
  let ?d = "Dispatch (PStr (tool_name lister_task)) (PDict [])"
  let ?s2 = "?s1\<lparr>events := events ?s1 @ [?pe, ?d]\<rparr>"
  have unmet: "\<not> deps_complete reader_task (execution_results ?r0)"
    by (simp add: deps_complete_def init_run_def)
  have one: "execute_task success_env False ''read after listing'' reader_task ?r0 init_state
               = (None, ?r0, ?s1)"
    using execute_task_unmet [OF unmet, of success_env False "''read after listing''" init_state]
    by simp
  have ready: "deps_complete lister_task (execution_results ?r0)"
    "enhance_arguments_with_results success_env lister_task (execution_results ?r0) = Inr (PDict [])"
    by (simp_all add: deps_complete_def enhance_arguments_with_results_def)
  have allow: "evaluate False ''tool''
      [(''name'', PStr (tool_name lister_task)), (''arguments'', arguments lister_task)] = Inr ALLOW"
    by (simp add: evaluate_list_allow)
  have mr: "0 < max_retries (self_correcting_agent ?r0)"
    by (simp add: init_run_def agent_executor_def)
  have al: "is_tool_allowed ''terminal'' (PStr (tool_name lister_task)) = Inr True"
    by (simp add: allowed_list_directory)
  have key: "cache_key success_env ''tool'' ''terminal'' (PStr (tool_name lister_task)) (PDict [])
               = Inr ''tool:terminal:list_directory:{}''"
    by (simp add: cache_key_def ebind_def)
  have pre: "\<not> cancelled ?s2" "circuit_open_until ?s2 ''tool:terminal:list_directory:{}'' = None"
    "case cache ?s2 ''tool:terminal:list_directory:{}'' of None \<Rightarrow> True | Some v \<Rightarrow> \<not> truthy v"
    "transport success_env (length (events ?s2)) (CallTool (PStr (tool_name lister_task)) (PDict []))
       = Inr done_ok"
    by (simp_all add: init_state_def)
  from call_tool_refetch [OF pre(1) al key pre(2) pre(3) pre(4)]
  obtain s3 where ct:
    "call_tool success_env ''terminal'' (PStr (tool_name lister_task)) (PDict []) ?s2
       = (Inr done_ok, s3)"
    "events s3 = events ?s2 @ [Transport (CallTool (PStr (tool_name lister_task)) (PDict []))]"
    by blast
  have ct': "call_tool success_env ''terminal'' (PStr (tool_name lister_task)) (PDict [])
           (?s1\<lparr>events := events ?s1 @ [?pe, Dispatch (PStr (tool_name lister_task)) (PDict [])]\<rparr>)
           = (Inr done_ok, s3)"
    using ct(1) by simp
  have ex: "extract_tool_result success_env done_ok = PDict [(''success'', PBool True)]"
    by (simp add: extract_tool_result_def done_ok_def)
  from execute_task_dispatch_ok [OF ready(1) ready(2) allow mr ct' ex, of "PBool True"
      "''read after listing''"]
  obtain r' s' where two:
    "execute_task success_env False ''read after listing'' lister_task ?r0 ?s1 = (None, r', s')"
    "events s' = events s3"
    "map r_task_id (execution_results r') = map r_task_id (execution_results ?r0) @ [task_id lister_task]"
    by auto
  have run: "execute_plan success_env False ''read after listing'' reversed_plan ?r0 init_state
               = (None, r', s')"
    by (simp add: execute_plan_def reversed_plan_value reversed_fields one two(1))
  have ids: "map r_task_id (execution_results r') = [''task_1'']"
    using two(3) by (simp add: init_run_def)
  have disp: "filter is_dispatch (events s') = [Dispatch (PStr ''list_directory'') (PDict [])]"
    by (simp add: two(2) ct(2) init_state_def)
  from run ids disp show ?thesis by (intro exI conjI)
qed

text \<open>
  C6, as the code has it. The loop of \<open>answer\<close> walks \<open>task_plan.subtasks\<close> in list
  order and never reads \<open>execution_order\<close>. For every plan and every start of the loop:

  \<^item> the results a run adds belong to subtasks \<open>ran\<close> that form a subsequence of the
    subtasks list, the results are in the order of that list, and each of these
    subtasks had every dependency successful among the results before its own;

  \<^item> the run is the same for any value of \<open>execution_order\<close>;

  \<^item> a subtask one of whose dependencies has no successful entry in the results so far
    is skipped: the skip line is printed, the policy is not asked, nothing is
    dispatched, and the results are unchanged;

  \<^item> a subtask with a dependency that is neither among the results at the start nor
    the id of a subtask listed before it is skipped, whatever is listed after it: a
    prerequisite that is listed later does not count.
\<close>

theorem plan_runs_in_list_order:
  "(\<exists>new ran. execution_results (fst (snd (execute_plan env dry question plan r s)))
                  = execution_results r @ new
        \<and> subseq ran (subtasks plan)
        \<and> map r_task_id new = map task_id ran
        \<and> map r_tool new = map tool_name ran
        \<and> (\<forall>i < length ran. deps_complete (ran ! i) (execution_results r @ take i new)))
   \<and> execute_plan env dry question (plan\<lparr>execution_order := order\<rparr>) r s
       = execute_plan env dry question plan r s
   \<and> (\<not> deps_complete task (execution_results r)
       \<longrightarrow> execute_task env dry question task r s
             = (None, r,
                s\<lparr>events := events s
                       @ [Printed (''Skipping '' @ task_id task @ '' - dependencies not met'')]\<rparr>))
   \<and> (subtasks plan = pre @ task # post
        \<and> dep \<in> set (dependencies task)
        \<and> dep \<notin> task_id ` set pre
        \<and> dep \<notin> r_task_id ` set (execution_results r)
        \<and> execute_loop env dry question pre r s = (None, r1, s1)
       \<longrightarrow> execute_plan env dry question plan r s
             = execute_loop env dry question post r1
                 (s1\<lparr>events := events s1
                        @ [Printed (''Skipping '' @ task_id task @ '' - dependencies not met'')]\<rparr>))"
proof -
  obtain x r' s' where run: "execute_loop env dry question (subtasks plan) r s = (x, r', s')"
    by (cases "execute_loop env dry question (subtasks plan) r s")
  have a: "\<exists>new ran. execution_results (fst (snd (execute_plan env dry question plan r s)))
                  = execution_results r @ new
        \<and> subseq ran (subtasks plan)
        \<and> map r_task_id new = map task_id ran
        \<and> map r_tool new = map tool_name ran
        \<and> (\<forall>i < length ran. deps_complete (ran ! i) (execution_results r @ take i new))"
    using execute_loop_results [OF run] by (simp add: execute_plan_def run)
  have b: "execute_plan env dry question (plan\<lparr>execution_order := order\<rparr>) r s
             = execute_plan env dry question plan r s"
    by (simp add: execute_plan_def)
  have c: "\<not> deps_complete task (execution_results r)
       \<longrightarrow> execute_task env dry question task r s
             = (None, r,
                s\<lparr>events := events s
                       @ [Printed (''Skipping '' @ task_id task @ '' - dependencies not met'')]\<rparr>)"
    using execute_task_unmet by blast
  have d: "subtasks plan = pre @ task # post
        \<and> dep \<in> set (dependencies task)
        \<and> dep \<notin> task_id ` set pre
        \<and> dep \<notin> r_task_id ` set (execution_results r)
        \<and> execute_loop env dry question pre r s = (None, r1, s1)
       \<longrightarrow> execute_plan env dry question plan r s
             = execute_loop env dry question post r1
                 (s1\<lparr>events := events s1
                        @ [Printed (''Skipping '' @ task_id task @ '' - dependencies not met'')]\<rparr>)"
  proof (intro impI, elim conjE)
    assume h: "subtasks plan = pre @ task # post" "dep \<in> set (dependencies task)"
      "dep \<notin> task_id ` set pre" "dep \<notin> r_task_id ` set (execution_results r)"
      "execute_loop env dry question pre r s = (None, r1, s1)"
    show "execute_plan env dry question plan r s
             = execute_loop env dry question post r1
                 (s1\<lparr>events := events s1
                        @ [Printed (''Skipping '' @ task_id task @ '' - dependencies not met'')]\<rparr>)"
      unfolding execute_plan_def h(1) by (rule execute_loop_listed_later [OF h(2-5)])
  qed
  from a b c d show ?thesis by (intro conjI)
qed

text \<open>
  The theorem for the plan that lists the reader before the lister it depends on, on the
  server that serves every call. One result is added, that of the lister, whose (empty)
  dependencies were complete; the order the planner computed plays no part; the reader
  is skipped, as the first subtask of the list, though its prerequisite is listed next.
\<close>

theorem plan_runs_in_list_order_witness:
  "(\<exists>new ran. execution_results (fst (snd (execute_plan success_env False ''read after listing''
                   reversed_plan (init_run agent_executor) init_state))) = new
        \<and> subseq ran [reader_task, lister_task]
        \<and> map task_id ran = [''task_1'']
        \<and> map r_task_id new = [''task_1'']
        \<and> deps_complete (ran ! 0) [])
   \<and> execute_plan success_env False ''read after listing''
        (reversed_plan\<lparr>execution_order := [''task_2'', ''task_1'']\<rparr>)
        (init_run agent_executor) init_state
       = execute_plan success_env False ''read after listing'' reversed_plan
           (init_run agent_executor) init_state
   \<and> execute_task success_env False ''read after listing'' reader_task (init_run agent_executor)
       init_state
       = (None, init_run agent_executor,
          init_state\<lparr>events := events init_state
             @ [Printed (''Skipping '' @ task_id reader_task @ '' - dependencies not met'')]\<rparr>)
   \<and> execute_plan success_env False ''read after listing'' reversed_plan
        (init_run agent_executor) init_state
       = execute_loop success_env False ''read after listing'' [lister_task]
           (init_run agent_executor)
           (init_state\<lparr>events := events init_state
              @ [Printed (''Skipping '' @ task_id reader_task @ '' - dependencies not met'')]\<rparr>)"
proof -
  let ?r0 = "init_run agent_executor"
  note T = plan_runs_in_list_order
      [where env = success_env and dry = False and question = "''read after listing''"
         and plan = reversed_plan and r = ?r0 and s = init_state
         and order = "[''task_2'', ''task_1'']" and task = reader_task
         and pre = "[]" and post = "[lister_task]" and dep = "''task_1''"
         and ?r1.0 = ?r0 and ?s1.0 = init_state]
  have r0: "execution_results ?r0 = []" by (simp add: init_run_def)
  from reversed_plan_run obtain r' s' where run:
    "execute_plan success_env False ''read after listing'' reversed_plan ?r0 init_state
       = (None, r', s')"
    "map r_task_id (execution_results r') = [''task_1'']" by auto
  from T [THEN conjunct1] obtain new ran where n:
    "execution_results r' = new" "subseq ran (subtasks reversed_plan)"
    "map r_task_id new = map task_id ran"
    "\<forall>i < length ran. deps_complete (ran ! i) (execution_results ?r0 @ take i new)"
    unfolding run(1) r0 by auto
  have ids: "map task_id ran = [''task_1'']" using n(1,3) run(2) by simp
  then have "length (map task_id ran) = 1" by simp
  then have "0 < length ran" by simp
  with n(4) have "deps_complete (ran ! 0) (execution_results ?r0 @ take 0 new)" by blast
  then have dc: "deps_complete (ran ! 0) []" by (simp add: r0)
  have sub: "subseq ran [reader_task, lister_task]"
    using n(2) by (simp add: reversed_plan_value reversed_fields)
  have c1: "\<exists>new ran. execution_results (fst (snd (execute_plan success_env False
                   ''read after listing'' reversed_plan ?r0 init_state))) = new
        \<and> subseq ran [reader_task, lister_task]
        \<and> map task_id ran = [''task_1'']
        \<and> map r_task_id new = [''task_1'']
        \<and> deps_complete (ran ! 0) []"
    unfolding run(1) using sub ids dc run(2) by (intro exI [of _ "execution_results r'"] exI [of _ ran]) simp
  note c2 = T [THEN conjunct2, THEN conjunct1]
  have unmet: "\<not> deps_complete reader_task (execution_results ?r0)"
    by (simp add: deps_complete_def init_run_def)
  note c3 = T [THEN conjunct2, THEN conjunct2, THEN conjunct1, THEN mp, OF unmet]
  have h: "subtasks reversed_plan = [] @ reader_task # [lister_task]
        \<and> ''task_1'' \<in> set (dependencies reader_task)
        \<and> ''task_1'' \<notin> task_id ` set []
        \<and> ''task_1'' \<notin> r_task_id ` set (execution_results ?r0)
        \<and> execute_loop success_env False ''read after listing'' [] ?r0 init_state
            = (None, ?r0, init_state)"
    by (simp add: reversed_plan_value reversed_fields r0)
  note c4 = T [THEN conjunct2, THEN conjunct2, THEN conjunct2, THEN mp, OF h]
  from c1 c2 c3 c4 show ?thesis by (intro conjI)
qed

text \<open>
  C6 as stated fails. The planner orders the plan \<open>task_1\<close>, \<open>task_2\<close>; the agent takes
  the subtasks as listed, reader first, skips it, then runs the lister. Only \<open>task_1\<close>
  is dispatched, on a server that would have served both in topological order.
\<close>

theorem reversed_plan_skips_reader:
  "execution_order reversed_plan = [''task_1'', ''task_2'']
   \<and> map r_task_id (execution_results (fst (snd
        (execute_plan success_env False ''read after listing'' reversed_plan
           (init_run agent_executor) init_state)))) = [''task_1'']
   \<and> filter is_dispatch (events (snd (snd
        (execute_plan success_env False ''read after listing'' reversed_plan
           (init_run agent_executor) init_state))))
       = [Dispatch (PStr ''list_directory'') (PDict [])]"
proof -
  from reversed_plan_run obtain r' s' where run:
    "execute_plan success_env False ''read after listing'' reversed_plan
       (init_run agent_executor) init_state = (None, r', s')"
    "map r_task_id (execution_results r') = [''task_1'']"
    "filter is_dispatch (events s') = [Dispatch (PStr ''list_directory'') (PDict [])]"
    by auto
  have "execution_order reversed_plan = [''task_1'', ''task_2'']"
    by (simp add: reversed_plan_value reversed_fields)
  with run show ?thesis by simp
qed

section \<open>MCP client: no policy evaluation\<close>

lemma add_to_context_step: "client_step s (add_to_context env item s)"
  by (rule client_step_same_events) simp

lemma read_resource_loop_step:
  "read_resource_loop env uri key start as s = (x, s') \<Longrightarrow> client_step s s'"
proof (induction as arbitrary: s)
  case Nil
  then show ?case by simp
next
  case (Cons a as)
  obtain t s1 where tt: "time_time env s = (t, s1)" by (cases "time_time env s")
  have e1: "events s1 = events s" using tt by (auto simp: time_time_def)
  show ?case
  proof (cases "t - start > RESOURCE_TIMEOUT_SECONDS")
    case True
    with Cons.prems tt have "s' = s1" by simp
    with e1 show ?thesis by (simp add: client_step_def)
  next
    case False
    let ?s1 = "trace env ''read_resource'' (PStr uri) s1"
    obtain y s2 where snd: "send env (ReadResource uri) ?s1 = (y, s2)"
      by (cases "send env (ReadResource uri) ?s1")
    have st: "client_step s s2"
      using client_step_send [OF snd] e1 by (simp add: client_step_def)
    show ?thesis
    proof (cases y)
      case (Inr res)
      with Cons.prems tt False snd have "events s' = events s2" by auto
      with st show ?thesis by (simp add: client_step_def)
    next
      case (Inl e)
      let ?s3 = "record_failure env key (trace env ''resource_error'' (PStr (exn_msg e)) s2)"
      have e3: "events ?s3 = events s2" by simp
      consider "s' = s2" | "s' = ?s3"
        | "read_resource_loop env uri key start as ?s3 = (x, s')"
        using Cons.prems tt False snd Inl by (auto simp: Let_def split: if_splits)
      then show ?thesis
      proof cases
        case 1
        with st show ?thesis by simp
      next
        case 2
        with st e3 show ?thesis by (simp add: client_step_def)
      next
        case 3
        from Cons.IH [OF 3] have "client_step ?s3 s'" .
        with st e3 show ?thesis by (auto simp: client_step_def)
      qed
    qed
  qed
qed

lemma read_resource_step:
  "read_resource env server uri s = (x, s') \<Longrightarrow> client_step s s'"
proof -
  assume a: "read_resource env server uri s = (x, s')"
  show ?thesis
  proof (cases "check_cancelled s")
    case (Inl e)
    with a show ?thesis by (simp add: read_resource_def)
  next
    case c: (Inr u)
    show ?thesis
    proof (cases "is_resource_allowed server uri")
      case False
      with a c show ?thesis by (simp add: read_resource_def)
    next
      case True
      show ?thesis
      proof (cases "cache_key env ''resource'' server (PStr uri) PNone")
        case (Inl e)
        with a c True show ?thesis by (simp add: read_resource_def)
      next
        case k: (Inr key)
        obtain cc s1 where cc: "check_circuit env key s = (cc, s1)"
          by (cases "check_circuit env key s")
        note e1 = check_circuit_events [OF cc]
        show ?thesis
        proof (cases cc)
          case (Inl e)
          with a c True k cc have "s' = s1" by (simp add: read_resource_def)
          with e1 show ?thesis by (simp add: client_step_def)
        next
          case (Inr u2)
          obtain cached s2 where gc: "get_cached env key s1 = (cached, s2)"
            by (cases "get_cached env key s1")
          note e2 = get_cached_events [OF gc]
          show ?thesis
          proof (cases "truthy cached")
            case t: True
            with a c True k cc Inr gc have "s' = s2" by (simp add: read_resource_def)
            with e1 e2 show ?thesis by (simp add: client_step_def)
          next
            case f: False
            obtain start s3 where tt: "time_time env s2 = (start, s3)"
              by (cases "time_time env s2")
            have e3: "events s3 = events s2" using tt by (auto simp: time_time_def)
            from a c True k cc Inr gc f tt
            have "read_resource_loop env uri key start [0 ..< MAX_RETRIES + 1] s3 = (x, s')"
              by (simp add: read_resource_def)
            from read_resource_loop_step [OF this] e1 e2 e3 show ?thesis
              by (simp add: client_step_def)
          qed
        qed
      qed
    qed
  qed
qed

lemma get_prompt_step:
  "get_prompt env server name args s = (x, s') \<Longrightarrow> client_step s s'"
proof -
  assume a: "get_prompt env server name args s = (x, s')"
  show ?thesis
  proof (cases "check_cancelled s")
    case (Inl e)
    with a show ?thesis by (simp add: get_prompt_def)
  next
    case c: (Inr u)
    show ?thesis
    proof (cases "is_prompt_allowed server name")
      case (Inl e)
      with a c show ?thesis by (simp add: get_prompt_def)
    next
      case al: (Inr allowed)
      show ?thesis
      proof (cases "allowed \<and> (\<exists>key. cache_key env ''prompt'' server name args = Inr key)")
        case False
        with a c al have "s' = s" by (auto simp: get_prompt_def split: sum.splits if_splits)
        then show ?thesis by simp
      next
        case True
        then obtain key where k: "cache_key env ''prompt'' server name args = Inr key" and alw: allowed
          by blast
        obtain cached s1 where gc: "get_cached env key s = (cached, s1)"
          by (cases "get_cached env key s")
        note e1 = get_cached_events [OF gc]
        show ?thesis
        proof (cases "truthy cached")
          case t: True
          with a c al alw k gc have "s' = s1" by (simp add: get_prompt_def)
          with e1 show ?thesis by (simp add: client_step_def)
        next
          case f: False
          let ?s1 = "trace env ''get_prompt_template'' name s1"
          obtain y s2 where snd: "send env (GetPrompt name args) ?s1 = (y, s2)"
            by (cases "send env (GetPrompt name args) ?s1")
          have e2: "events s2 = events s @ [Transport (GetPrompt name args)]"
            using send_result(6) [OF snd] e1 by simp
          show ?thesis
          proof (cases y)
            case (Inl e)
            with a c al alw k gc f snd have "s' = s2" by (simp add: get_prompt_def)
            with e2 show ?thesis by (simp add: client_step_def)
          next
            case (Inr pm)
            with a c al alw k gc f snd
            have "events s' = events s2 @ [LLMCall (prompt_text env pm)]"
              by (auto simp: get_prompt_def Let_def split: sum.splits)
            with e2 show ?thesis by (simp add: client_step_def)
          qed
        qed
      qed
    qed
  qed
qed

lemma client_step_snd:
  "(\<And>x s'. f = (x, s') \<Longrightarrow> client_step s s') \<Longrightarrow> client_step s (snd f)"
  by (cases f) simp

section \<open>Where the policy is asked\<close>

lemma client_cancelled:
  assumes "cancelled s"
  shows "read_resource env server uri s
           = (Inl (Exn RuntimeError ''Client operation cancelled''), s)"
    and "call_tool env server name args s
           = (Inl (Exn RuntimeError ''Client operation cancelled''), s)"
    and "get_prompt env server pname pargs s
           = (Inl (Exn RuntimeError ''Client operation cancelled''), s)"
  using assms
  by (simp_all add: read_resource_def call_tool_def get_prompt_def check_cancelled_def)

lemma read_resource_not_allowed:
  assumes "\<not> cancelled s" and "\<not> is_resource_allowed server uri"
  shows "read_resource env server uri s
           = (Inl (Exn PermissionError (''Resource not allowed: '' @ uri)), s)"
  using assms by (simp add: read_resource_def check_cancelled_def)

lemma call_tool_not_allowed:
  assumes "\<not> cancelled s" and "is_tool_allowed server name = Inr False"
  shows "call_tool env server name args s
           = (Inl (Exn PermissionError (''Tool not allowed: '' @ name_str env name)), s)"
  using assms by (simp add: call_tool_def check_cancelled_def)

lemma get_prompt_not_allowed:
  assumes "\<not> cancelled s" and "is_prompt_allowed server pname = Inr False"
  shows "get_prompt env server pname pargs s
           = (Inl (Exn PermissionError (''Prompt not allowed: '' @ name_str env pname)), s)"
  using assms by (simp add: get_prompt_def check_cancelled_def)

lemma call_tool_sent:
  assumes "\<not> cancelled s" and "is_tool_allowed server name = Inr True"
    and "cache_key env ''tool'' server name args = Inr key"
    and "circuit_open_until s key = None" and "cache s key = None"
    and "transport env (length (events s)) (CallTool name args) = Inr res"
  shows "fst (call_tool env server name args s) = Inr res
       \<and> events (snd (call_tool env server name args s))
           = events s @ [Transport (CallTool name args)]"
proof -
  have miss: "case cache s key of None \<Rightarrow> True | Some v \<Rightarrow> \<not> truthy v"
    using assms(5) by simp
  from call_tool_refetch [OF assms(1-4) miss assms(6)]
  obtain s' where "call_tool env server name args s = (Inr res, s')"
    "events s' = events s @ [Transport (CallTool name args)]" by auto
  then show ?thesis by simp
qed

lemma execute_task_gate_first:
  assumes "deps_complete task (execution_results r)"
    and "enhance_arguments_with_results env task (execution_results r) = Inr a"
  shows "\<exists>es. events (snd (snd (execute_task env dry question task r s)))
               = events s @ PolicyEval ''tool''
                   [(''name'', PStr (tool_name task)), (''arguments'', arguments task)] # es"
proof -
  let ?pe = "PolicyEval ''tool'' [(''name'', PStr (tool_name task)), (''arguments'', arguments task)]"
  let ?s1 = "s\<lparr>events := events s @ [?pe]\<rparr>"
  obtain gx sg where g: "gate_tool dry (tool_name task) (arguments task) s = (gx, sg)"
    by (cases "gate_tool dry (tool_name task) (arguments task) s")
  have sg: "sg = ?s1"
    using g by (auto simp: gate_tool_def Let_def split: sum.splits if_splits)
  have fin: "\<And>s'. log_grows ?s1 s' \<Longrightarrow> \<exists>es. events s' = events s @ ?pe # es"
    by (auto simp: log_grows_def)
  have "log_grows ?s1 (snd (snd (execute_task env dry question task r s)))"
  proof (cases gx)
    case (Inl e)
    with assms g sg show ?thesis by (simp add: execute_task_def)
  next
    case (Inr ok)
    show ?thesis
    proof (cases ok)
      case False
      with assms g sg Inr show ?thesis
        by (simp add: execute_task_def log_grows_def)
    next
      case True
      obtain res ex' s2 where aw:
        "act_with_retry env (self_correcting_agent r) ''terminal'' (PStr (tool_name task)) a
           question ?s1 = (res, ex', s2)"
        by (cases "act_with_retry env (self_correcting_agent r) ''terminal''
                     (PStr (tool_name task)) a question ?s1") auto
      have u2: "log_grows ?s1 s2"
        using aw unfolding act_with_retry_def by (rule act_loop_grows)
      have "events (snd (snd (execute_task env dry question task r s))) = events s2"
        using assms g sg Inr True aw
        by (auto simp: execute_task_def add_context_def time_time_def
                 split: sum.splits prod.splits)
      with u2 show ?thesis by (simp add: log_grows_def)
    qed
  qed
  from fin [OF this] show ?thesis .
qed

lemma execute_task_allowed_first:
  assumes "deps_complete task (execution_results r)"
    and "enhance_arguments_with_results env task (execution_results r) = Inr a"
    and "evaluate dry ''tool'' [(''name'', PStr (tool_name task)), (''arguments'', arguments task)]
           = Inr ALLOW"
    and "0 < max_retries (self_correcting_agent r)"
  shows "\<exists>es. events (snd (snd (execute_task env dry question task r s)))
               = events s @ PolicyEval ''tool''
                   [(''name'', PStr (tool_name task)), (''arguments'', arguments task)]
                 # Dispatch (PStr (tool_name task)) a # es"
proof -
  let ?pe = "PolicyEval ''tool'' [(''name'', PStr (tool_name task)), (''arguments'', arguments task)]"
  let ?s1 = "s\<lparr>events := events s @ [?pe]\<rparr>"
  obtain res ex' s2 where aw:
    "act_with_retry env (self_correcting_agent r) ''terminal'' (PStr (tool_name task)) a
       question ?s1 = (res, ex', s2)"
    by (cases "act_with_retry env (self_correcting_agent r) ''terminal''
                 (PStr (tool_name task)) a question ?s1") auto
  from act_with_retry_first_dispatch [OF assms(4) aw]
  obtain es where es: "events s2 = events ?s1 @ Dispatch (PStr (tool_name task)) a # es"
    by blast
  have "events (snd (snd (execute_task env dry question task r s))) = events s2"
    using assms(1,2) aw
    by (auto simp: execute_task_def gate_tool_allow [OF assms(3)] add_context_def time_time_def
             split: sum.splits prod.splits)
  with es show ?thesis by simp
qed

lemma execute_task_denied:
  assumes "deps_complete task (execution_results r)"
    and "enhance_arguments_with_results env task (execution_results r) = Inr a"
    and "evaluate dry ''tool'' [(''name'', PStr (tool_name task)), (''arguments'', arguments task)]
           = Inr DENY"
  shows "execute_task env dry question task r s
           = (Some (Exn PermissionError (''Policy denied: '' @ tool_name task)), r,
              s\<lparr>events := events s
                     @ [PolicyEval ''tool''
                          [(''name'', PStr (tool_name task)), (''arguments'', arguments task)]]\<rparr>)"
  using assms by (simp add: execute_task_def gate_tool_deny)

text \<open>
  C1, as the code has it. The client asks no policy. All that \<open>read_resource\<close>,
  \<open>call_tool\<close> and \<open>get_prompt\<close> test before the transport is the cancellation flag
  and the static allow-list of the server:

  \<^item> on a cancelled client each of the three raises \<open>RuntimeError\<close> and leaves the
    state as it was;

  \<^item> on a client that is not cancelled, a resource, tool or prompt that is not allowed
    raises \<open>PermissionError\<close> and leaves the state as it was;

  \<^item> none of the three ever logs anything but transport requests and the LLM call of
    \<open>get_prompt\<close>;

  \<^item> an allowed tool call on a cold cache and a closed circuit is sent to the
    transport and its answer returned, whatever the call is.

  The gate is in the agent. For a subtask whose dependencies are met, the loop of
  \<open>answer\<close> evaluates the policy on the tool name and the arguments of the subtask as
  planned, and this is the first thing it logs. On an allow the first dispatch of the
  subtask follows it directly; on a deny the gate raises \<open>PermissionError\<close> and nothing
  else has happened; on a dry-run the subtask is skipped with its skip line, and nothing
  is dispatched.
\<close>

theorem policy_gate_is_in_the_agent:
  "(cancelled s \<longrightarrow>
      read_resource env server uri s = (Inl (Exn RuntimeError ''Client operation cancelled''), s)
      \<and> call_tool env server name args s
          = (Inl (Exn RuntimeError ''Client operation cancelled''), s)
      \<and> get_prompt env server pname pargs s
          = (Inl (Exn RuntimeError ''Client operation cancelled''), s))
   \<and> (\<not> cancelled s \<and> \<not> is_resource_allowed server uri \<longrightarrow>
        read_resource env server uri s
          = (Inl (Exn PermissionError (''Resource not allowed: '' @ uri)), s))
   \<and> (\<not> cancelled s \<and> is_tool_allowed server name = Inr False \<longrightarrow>
        call_tool env server name args s
          = (Inl (Exn PermissionError (''Tool not allowed: '' @ name_str env name)), s))
   \<and> (\<not> cancelled s \<and> is_prompt_allowed server pname = Inr False \<longrightarrow>
        get_prompt env server pname pargs s
          = (Inl (Exn PermissionError (''Prompt not allowed: '' @ name_str env pname)), s))
   \<and> client_step s (snd (read_resource env server uri s))
   \<and> client_step s (snd (call_tool env server name args s))
   \<and> client_step s (snd (get_prompt env server pname pargs s))
   \<and> (\<not> cancelled s \<and> is_tool_allowed server name = Inr True
        \<and> cache_key env ''tool'' server name args = Inr key
        \<and> circuit_open_until s key = None \<and> cache s key = None
        \<and> transport env (length (events s)) (CallTool name args) = Inr res \<longrightarrow>
        fst (call_tool env server name args s) = Inr res
        \<and> events (snd (call_tool env server name args s))
            = events s @ [Transport (CallTool name args)])
   \<and> (deps_complete task (execution_results r)
        \<and> enhance_arguments_with_results env task (execution_results r) = Inr a \<longrightarrow>
        (\<exists>es. events (snd (snd (execute_task env dry question task r s)))
                = events s @ PolicyEval ''tool''
                    [(''name'', PStr (tool_name task)), (''arguments'', arguments task)] # es))
   \<and> (deps_complete task (execution_results r)
        \<and> enhance_arguments_with_results env task (execution_results r) = Inr a
        \<and> evaluate dry ''tool''
             [(''name'', PStr (tool_name task)), (''arguments'', arguments task)] = Inr ALLOW
        \<and> 0 < max_retries (self_correcting_agent r) \<longrightarrow>
        (\<exists>es. events (snd (snd (execute_task env dry question task r s)))
                = events s @ PolicyEval ''tool''
                    [(''name'', PStr (tool_name task)), (''arguments'', arguments task)]
                  # Dispatch (PStr (tool_name task)) a # es))
   \<and> (deps_complete task (execution_results r)
        \<and> enhance_arguments_with_results env task (execution_results r) = Inr a
        \<and> evaluate dry ''tool''
             [(''name'', PStr (tool_name task)), (''arguments'', arguments task)] = Inr DENY \<longrightarrow>
        execute_task env dry question task r s
          = (Some (Exn PermissionError (''Policy denied: '' @ tool_name task)), r,
             s\<lparr>events := events s
                    @ [PolicyEval ''tool''
                         [(''name'', PStr (tool_name task)),
                          (''arguments'', arguments task)]]\<rparr>))
   \<and> (deps_complete task (execution_results r)
        \<and> enhance_arguments_with_results env task (execution_results r) = Inr a
        \<and> evaluate dry ''tool''
             [(''name'', PStr (tool_name task)), (''arguments'', arguments task)] = Inr DRY_RUN \<longrightarrow>
        execute_task env dry question task r s
          = (None, r,
             s\<lparr>events := events s
                    @ [PolicyEval ''tool''
                         [(''name'', PStr (tool_name task)), (''arguments'', arguments task)],
                       Printed (''Skipping '' @ task_id task @ '' - policy denied'')]\<rparr>))"
proof -
  have c1: "cancelled s \<longrightarrow>
      read_resource env server uri s = (Inl (Exn RuntimeError ''Client operation cancelled''), s)
      \<and> call_tool env server name args s
          = (Inl (Exn RuntimeError ''Client operation cancelled''), s)
      \<and> get_prompt env server pname pargs s
          = (Inl (Exn RuntimeError ''Client operation cancelled''), s)"
    using client_cancelled [of s] by blast
  have c2: "\<not> cancelled s \<and> \<not> is_resource_allowed server uri \<longrightarrow>
        read_resource env server uri s
          = (Inl (Exn PermissionError (''Resource not allowed: '' @ uri)), s)"
    using read_resource_not_allowed by blast
  have c3: "\<not> cancelled s \<and> is_tool_allowed server name = Inr False \<longrightarrow>
        call_tool env server name args s
          = (Inl (Exn PermissionError (''Tool not allowed: '' @ name_str env name)), s)"
    using call_tool_not_allowed by blast
  have c4: "\<not> cancelled s \<and> is_prompt_allowed server pname = Inr False \<longrightarrow>
        get_prompt env server pname pargs s
          = (Inl (Exn PermissionError (''Prompt not allowed: '' @ name_str env pname)), s)"
    using get_prompt_not_allowed by blast
  have c5: "client_step s (snd (read_resource env server uri s))"
    by (rule client_step_snd) (rule read_resource_step)
  have c6: "client_step s (snd (call_tool env server name args s))"
    by (rule client_step_snd) (rule call_tool_step)
  have c7: "client_step s (snd (get_prompt env server pname pargs s))"
    by (rule client_step_snd) (rule get_prompt_step)
  have c8: "\<not> cancelled s \<and> is_tool_allowed server name = Inr True
        \<and> cache_key env ''tool'' server name args = Inr key
        \<and> circuit_open_until s key = None \<and> cache s key = None
        \<and> transport env (length (events s)) (CallTool name args) = Inr res \<longrightarrow>
        fst (call_tool env server name args s) = Inr res
        \<and> events (snd (call_tool env server name args s))
            = events s @ [Transport (CallTool name args)]"
    by (intro impI, elim conjE, rule call_tool_sent)
  have c9: "deps_complete task (execution_results r)
        \<and> enhance_arguments_with_results env task (execution_results r) = Inr a \<longrightarrow>
        (\<exists>es. events (snd (snd (execute_task env dry question task r s)))
                = events s @ PolicyEval ''tool''
                    [(''name'', PStr (tool_name task)), (''arguments'', arguments task)] # es)"
    by (intro impI, elim conjE, rule execute_task_gate_first)
  have c10: "deps_complete task (execution_results r)
        \<and> enhance_arguments_with_results env task (execution_results r) = Inr a
        \<and> evaluate dry ''tool''
             [(''name'', PStr (tool_name task)), (''arguments'', arguments task)] = Inr ALLOW
        \<and> 0 < max_retries (self_correcting_agent r) \<longrightarrow>
        (\<exists>es. events (snd (snd (execute_task env dry question task r s)))
                = events s @ PolicyEval ''tool''
                    [(''name'', PStr (tool_name task)), (''arguments'', arguments task)]
                  # Dispatch (PStr (tool_name task)) a # es)"
    by (intro impI, elim conjE, rule execute_task_allowed_first)
  have c11: "deps_complete task (execution_results r)
        \<and> enhance_arguments_with_results env task (execution_results r) = Inr a
        \<and> evaluate dry ''tool''
             [(''name'', PStr (tool_name task)), (''arguments'', arguments task)] = Inr DENY \<longrightarrow>
        execute_task env dry question task r s
          = (Some (Exn PermissionError (''Policy denied: '' @ tool_name task)), r,
             s\<lparr>events := events s
                    @ [PolicyEval ''tool''
                         [(''name'', PStr (tool_name task)),
                          (''arguments'', arguments task)]]\<rparr>)"
    by (intro impI, elim conjE, rule execute_task_denied)
  have c12: "deps_complete task (execution_results r)
        \<and> enhance_arguments_with_results env task (execution_results r) = Inr a
        \<and> evaluate dry ''tool''
             [(''name'', PStr (tool_name task)), (''arguments'', arguments task)] = Inr DRY_RUN \<longrightarrow>
        execute_task env dry question task r s
          = (None, r,
             s\<lparr>events := events s
                    @ [PolicyEval ''tool''
                         [(''name'', PStr (tool_name task)), (''arguments'', arguments task)],
                       Printed (''Skipping '' @ task_id task @ '' - policy denied'')]\<rparr>)"
    by (intro impI, elim conjE, rule execute_task_dry_run)
  from c1 c2 c3 c4 c5 c6 c7 c8 c9 c10 c11 c12 show ?thesis by (intro conjI)
qed

lemma lister_task_ready:
  "deps_complete lister_task (execution_results (init_run ex))"
  "enhance_arguments_with_results env lister_task (execution_results (init_run ex)) = Inr (PDict [])"
  by (simp_all add: deps_complete_def init_run_def enhance_arguments_with_results_def)

text \<open>
  The theorem on the sample server: the three operations on a cancelled client; a
  resource, a tool and a prompt that are not allowed; the client call of the destructive
  command; an allowed listing sent to the transport; and three subtasks on a fresh run,
  the listing (allow), the destructive command (deny) and the file write with the engine
  in dry-run mode.
\<close>

theorem policy_gate_is_in_the_agent_witness:
  "(read_resource success_env ''terminal'' ''system://info'' (cancel init_state)
      = (Inl (Exn RuntimeError ''Client operation cancelled''), cancel init_state)
    \<and> call_tool success_env ''terminal'' (PStr ''list_directory'') (PDict []) (cancel init_state)
      = (Inl (Exn RuntimeError ''Client operation cancelled''), cancel init_state)
    \<and> get_prompt success_env ''terminal'' (PStr ''terminal_system_prompt'') (PDict [])
        (cancel init_state)
      = (Inl (Exn RuntimeError ''Client operation cancelled''), cancel init_state))
   \<and> read_resource success_env ''terminal'' ''secret://keys'' init_state
      = (Inl (Exn PermissionError (''Resource not allowed: '' @ ''secret://keys'')), init_state)
   \<and> call_tool success_env ''terminal'' (PStr ''format_disk'') (PDict []) init_state
      = (Inl (Exn PermissionError
                (''Tool not allowed: '' @ name_str success_env (PStr ''format_disk''))), init_state)
   \<and> get_prompt success_env ''terminal'' (PStr ''jailbreak_prompt'') (PDict []) init_state
      = (Inl (Exn PermissionError
                (''Prompt not allowed: '' @ name_str success_env (PStr ''jailbreak_prompt''))),
         init_state)
   \<and> client_step init_state
        (snd (call_tool success_env ''terminal'' (PStr ''run_command'') (arguments rm_task)
                init_state))
   \<and> (fst (call_tool success_env ''terminal'' (PStr ''list_directory'') (PDict []) init_state)
        = Inr done_ok
      \<and> events (snd (call_tool success_env ''terminal'' (PStr ''list_directory'') (PDict [])
                       init_state))
        = events init_state @ [Transport (CallTool (PStr ''list_directory'') (PDict []))])
   \<and> (\<exists>es. events (snd (snd (execute_task success_env False ''read after listing'' lister_task
                                 (init_run agent_executor) init_state)))
              = events init_state @ PolicyEval ''tool''
                  [(''name'', PStr (tool_name lister_task)), (''arguments'', arguments lister_task)]
                # Dispatch (PStr (tool_name lister_task)) (PDict []) # es)
   \<and> execute_task success_env False ''Delete everything: run rm -rf /'' rm_task
       (init_run agent_executor) init_state
     = (Some (Exn PermissionError (''Policy denied: '' @ tool_name rm_task)),
        init_run agent_executor,
        init_state\<lparr>events := events init_state
           @ [PolicyEval ''tool''
                [(''name'', PStr (tool_name rm_task)), (''arguments'', arguments rm_task)]]\<rparr>)
   \<and> execute_task success_env True ''write a note'' write_task (init_run agent_executor)
       init_state
     = (None, init_run agent_executor,
        init_state\<lparr>events := events init_state
           @ [PolicyEval ''tool''
                [(''name'', PStr (tool_name write_task)), (''arguments'', arguments write_task)],
              Printed (''Skipping '' @ task_id write_task @ '' - policy denied'')]\<rparr>)"
proof -
  let ?r0 = "init_run agent_executor"
  note A = policy_gate_is_in_the_agent
      [where s = "cancel init_state" and env = success_env and server = "''terminal''"
         and uri = "''system://info''" and name = "PStr ''list_directory''" and args = "PDict []"
         and pname = "PStr ''terminal_system_prompt''" and pargs = "PDict []"]
  note B = policy_gate_is_in_the_agent
      [where s = init_state and env = success_env and server = "''terminal''"
         and uri = "''secret://keys''" and name = "PStr ''format_disk''" and args = "PDict []"
         and pname = "PStr ''jailbreak_prompt''" and pargs = "PDict []"]
  note C = policy_gate_is_in_the_agent
      [where s = init_state and env = success_env and server = "''terminal''"
         and name = "PStr ''run_command''" and args = "arguments rm_task"]
  note D = policy_gate_is_in_the_agent
      [where s = init_state and env = success_env and server = "''terminal''"
         and name = "PStr ''list_directory''" and args = "PDict []"
         and key = "''tool:terminal:list_directory:{}''" and res = done_ok
         and task = lister_task and r = ?r0 and a = "PDict []" and dry = False
         and question = "''read after listing''"]
  note E = policy_gate_is_in_the_agent
      [where s = init_state and env = success_env and task = rm_task and r = ?r0
         and a = "PDict [(''command'', PStr ''rm -rf /'')]" and dry = False
         and question = "''Delete everything: run rm -rf /''"]
  note F = policy_gate_is_in_the_agent
      [where s = init_state and env = success_env and task = write_task and r = ?r0
         and a = "PDict [(''path'', PStr ''note.txt''), (''content'', PStr ''hello'')]"
         and dry = True and question = "''write a note''"]
  have canc: "cancelled (cancel init_state)" by (simp add: cancel_def)
  have nc: "\<not> cancelled init_state" by simp
  have nres: "\<not> is_resource_allowed ''terminal'' ''secret://keys''"
    by (simp add: is_resource_allowed_def ALLOWED_RESOURCES_def)
  have ntool: "is_tool_allowed ''terminal'' (PStr ''format_disk'') = Inr False"
    by (simp add: is_tool_allowed_def ALLOWED_TOOLS_def)
  have nprompt: "is_prompt_allowed ''terminal'' (PStr ''jailbreak_prompt'') = Inr False"
    by (simp add: is_prompt_allowed_def ALLOWED_PROMPTS_def)
  have key: "cache_key success_env ''tool'' ''terminal'' (PStr ''list_directory'') (PDict [])
               = Inr ''tool:terminal:list_directory:{}''"
    by (simp add: cache_key_def ebind_def)
  have cold: "circuit_open_until init_state ''tool:terminal:list_directory:{}'' = None"
    "cache init_state ''tool:terminal:list_directory:{}'' = None"
    "transport success_env (length (events init_state))
       (CallTool (PStr ''list_directory'') (PDict [])) = Inr done_ok"
    by simp_all
  have allow: "evaluate False ''tool''
      [(''name'', PStr (tool_name lister_task)), (''arguments'', arguments lister_task)] = Inr ALLOW"
    by (simp add: evaluate_list_allow)
  have mr: "0 < max_retries (self_correcting_agent ?r0)"
    by (simp add: init_run_def agent_executor_def)
  have deny: "evaluate False ''tool''
      [(''name'', PStr (tool_name rm_task)), (''arguments'', arguments rm_task)] = Inr DENY"
    by (simp add: rm_task_ready evaluate_rm_rf)
  have dry: "evaluate True ''tool''
      [(''name'', PStr (tool_name write_task)), (''arguments'', arguments write_task)] = Inr DRY_RUN"
    by (simp add: write_task_ready evaluate_write_dry)
  note w1 = A [THEN conjunct1, THEN mp, OF canc]
  note w2 = B [THEN conjunct2, THEN conjunct1, THEN mp, OF conjI [OF nc nres]]
  note w3 = B [THEN conjunct2, THEN conjunct2, THEN conjunct1, THEN mp, OF conjI [OF nc ntool]]
  note w4 = B [THEN conjunct2, THEN conjunct2, THEN conjunct2, THEN conjunct1, THEN mp,
               OF conjI [OF nc nprompt]]
  note w5 = C [THEN conjunct2, THEN conjunct2, THEN conjunct2, THEN conjunct2, THEN conjunct2,
               THEN conjunct1]
  note w6 = D [THEN conjunct2, THEN conjunct2, THEN conjunct2, THEN conjunct2, THEN conjunct2,
               THEN conjunct2, THEN conjunct2, THEN conjunct1, THEN mp,
               OF conjI [OF nc conjI [OF allowed_list_directory conjI [OF key
                    conjI [OF cold(1) conjI [OF cold(2) cold(3)]]]]]]
  note w7 = D [THEN conjunct2, THEN conjunct2, THEN conjunct2, THEN conjunct2, THEN conjunct2,
               THEN conjunct2, THEN conjunct2, THEN conjunct2, THEN conjunct2, THEN conjunct1,
               THEN mp,
               OF conjI [OF lister_task_ready(1) conjI [OF lister_task_ready(2)
                    conjI [OF allow mr]]]]
  note w8 = E [THEN conjunct2, THEN conjunct2, THEN conjunct2, THEN conjunct2, THEN conjunct2,
               THEN conjunct2, THEN conjunct2, THEN conjunct2, THEN conjunct2, THEN conjunct2,
               THEN conjunct1, THEN mp,
               OF conjI [OF rm_task_ready(1) conjI [OF rm_task_ready(2) deny]]]
  note w9 = F [THEN conjunct2, THEN conjunct2, THEN conjunct2, THEN conjunct2, THEN conjunct2,
               THEN conjunct2, THEN conjunct2, THEN conjunct2, THEN conjunct2, THEN conjunct2,
               THEN conjunct2, THEN mp,
               OF conjI [OF write_task_ready(1) conjI [OF write_task_ready(2) dry]]]
  show ?thesis
    by (rule conjI [OF w1 conjI [OF w2 conjI [OF w3 conjI [OF w4 conjI [OF w5 conjI [OF w6
          conjI [OF w7 conjI [OF w8 w9]]]]]]]])
qed

text \<open>
  C1 as stated fails: the policy denies \<open>rm -rf /\<close>, and \<open>call_tool\<close> on the client
  sends it to the tool server and returns its answer; no \<open>PermissionError\<close>, no
  evaluation.
\<close>

theorem client_call_ignores_policy:
  "evaluate False ''tool''
     [(''name'', PStr ''run_command''), (''arguments'', PDict [(''command'', PStr ''rm -rf /'')])]
     = Inr DENY
   \<and> fst (call_tool rm_env ''terminal'' (PStr ''run_command'')
            (PDict [(''command'', PStr ''rm -rf /'')]) init_state) = Inr (PStr ''ok'')
   \<and> events (snd (call_tool rm_env ''terminal'' (PStr ''run_command'')
                    (PDict [(''command'', PStr ''rm -rf /'')]) init_state))
       = [Transport (CallTool (PStr ''run_command'') (PDict [(''command'', PStr ''rm -rf /'')]))]"
proof -
  let ?args = "PDict [(''command'', PStr ''rm -rf /'')]"
  let ?k = "''tool:terminal:run_command:'' @ rm_args_json"
  have al: "is_tool_allowed ''terminal'' (PStr ''run_command'') = Inr True"
    by (simp add: is_tool_allowed_def ALLOWED_TOOLS_def)
  have key: "cache_key rm_env ''tool'' ''terminal'' (PStr ''run_command'') ?args = Inr ?k"
    by (simp add: cache_key_def ebind_def rm_env_def)
  have pre: "\<not> cancelled init_state" "circuit_open_until init_state ?k = None"
    "case cache init_state ?k of None \<Rightarrow> True | Some v \<Rightarrow> \<not> truthy v"
    "transport rm_env (length (events init_state)) (CallTool (PStr ''run_command'') ?args)
       = Inr (PStr ''ok'')"
    by (simp_all add: rm_env_def demo_env_def)
  from call_tool_refetch [OF pre(1) al key pre(2) pre(3) pre(4)]
  obtain s' where ct:
    "call_tool rm_env ''terminal'' (PStr ''run_command'') ?args init_state = (Inr (PStr ''ok''), s')"
    "events s' = events init_state @ [Transport (CallTool (PStr ''run_command'') ?args)]"
    by blast
  show ?thesis by (simp add: evaluate_rm_rf ct)
qed

end
